theory Spec2Isabelle
  imports Main "HOL-Library.AList" "HOL-Library.Multiset"
begin

section \<open>Data model\<close>

text \<open>
  Identifiers are UUIDs; only their equality and their order (used by \<open>sorted\<close>) matter,
  so they are natural numbers here. A \<open>datetime\<close> is a point on the UTC time line,
  counted in microseconds (the resolution of Python's \<open>datetime\<close>); a \<open>timedelta\<close>
  is a difference of two such points. All timestamps are taken to be in UTC, as the
  examples of the API are (they end in \<open>Z\<close>), so that any two of them compare and
  subtract, and the fields that \<open>strftime\<close> prints are those of the UTC calendar.
\<close>

type_synonym uuid = nat
type_synonym datetime = int
type_synonym timedelta = int

datatype ShopUnitType = OFFER | CATEGORY

text \<open>\<open>ShopUnitImport\<close> of \<open>api/schema.py\<close>: \<open>parent_id\<close> and \<open>price\<close> are optional.\<close>

record ShopUnitImport =
  unit_id :: uuid
  unit_name :: string
  unit_parent_id :: "uuid option"
  unit_type :: ShopUnitType
  unit_price :: "int option"

text \<open>
  A node of the tree is a Python dict with the keys \<open>id\<close>, \<open>name\<close>, \<open>parent_id\<close>,
  \<open>type\<close>, \<open>price\<close>, \<open>date\<close> and \<open>children\<close>. \<open>children\<close> is \<open>None\<close> or a list of
  identifiers (a list, not a set: \<open>append\<close> and \<open>remove\<close> act on it).
\<close>

record node =
  node_id :: uuid
  name :: string
  parent_id :: "uuid option"
  node_type :: ShopUnitType
  price :: "int option"
  date :: datetime
  children :: "uuid list option"

text \<open>
  Both dicts of \<open>MarketTree\<close> are association lists in insertion order, which is the
  iteration order of a Python dict: \<open>AList.update\<close> overwrites in place or appends,
  \<open>AList.delete\<close> removes the key, \<open>map_of\<close> looks a key up.
\<close>

record MarketTree =
  nodes :: "(uuid \<times> node) list"
  price_by_id :: "(uuid \<times> (datetime \<times> int) list) list"

definition init :: MarketTree where
  "init = \<lparr>nodes = [], price_by_id = []\<rparr>"

text \<open>
  Every exception the modelled code can raise. \<open>HTTPException c\<close> is the error
  response of the API with status code \<open>c\<close>: 400 is "Validation Failed", 404 is
  "Item not found". The others are Python's runtime errors.
\<close>

datatype error =
  HTTPException nat
  | KeyError
  | TypeError
  | ValueError
  | AttributeError
  | ZeroDivisionError
  | RecursionError

abbreviation ValidationFailed :: error where
  "ValidationFailed \<equiv> HTTPException 400"

abbreviation NotFound :: error where
  "NotFound \<equiv> HTTPException 404"

text \<open>
  A method mutates the tree in place and then returns or raises; the mutations made
  before an exception stay. So every operation returns its outcome together with the
  tree it leaves behind.
\<close>

type_synonym 'a outcome = "(error + 'a) \<times> MarketTree"

section \<open>The price ledger\<close>

definition add_price :: "MarketTree \<Rightarrow> uuid \<Rightarrow> datetime \<Rightarrow> int \<Rightarrow> MarketTree" where
  "add_price t i d p =
     (case map_of (price_by_id t) i of
        None \<Rightarrow> t\<lparr>price_by_id := AList.update i [(d, p)] (price_by_id t)\<rparr>
      | Some h \<Rightarrow> t\<lparr>price_by_id := AList.update i (h @ [(d, p)]) (price_by_id t)\<rparr>)"

definition delete_price_by_id :: "MarketTree \<Rightarrow> uuid \<Rightarrow> unit outcome" where
  "delete_price_by_id t i =
     (case map_of (price_by_id t) i of
        None \<Rightarrow> (Inl KeyError, t)
      | Some h \<Rightarrow> (Inr (), t\<lparr>price_by_id := AList.delete i (price_by_id t)\<rparr>))"

section \<open>Upsert and delete\<close>

text \<open>\<open>if node["price"]\<close>: an optional integer is true when it is present and not zero.\<close>

definition truthy :: "int option \<Rightarrow> bool" where
  "truthy p = (case p of None \<Rightarrow> False | Some v \<Rightarrow> v \<noteq> 0)"

text \<open>
  The loop of \<open>add\<close> over \<open>self.nodes.items()\<close>: the entries are those of the dict when
  the loop starts (only the \<open>children\<close> list of node \<open>i\<close> changes while it runs). The test
  \<open>node_id not in self.nodes[id]["children"]\<close> is evaluated only when the parent matches,
  and raises \<open>TypeError\<close> when \<open>children\<close> is \<open>None\<close>.
\<close>

fun adopt :: "uuid \<Rightarrow> (uuid \<times> node) list \<Rightarrow> MarketTree \<Rightarrow> unit outcome" where
  "adopt i [] t = (Inr (), t)"
| "adopt i ((k, node_info) # rest) t =
     (if parent_id node_info = Some i then
        (case map_of (nodes t) i of
           None \<Rightarrow> (Inl KeyError, t)
         | Some n \<Rightarrow>
             (case children n of
                None \<Rightarrow> (Inl TypeError, t)
              | Some cs \<Rightarrow>
                  if k \<notin> set cs
                  then adopt i rest
                         (t\<lparr>nodes := AList.update i (n\<lparr>children := Some (cs @ [k])\<rparr>) (nodes t)\<rparr>)
                  else adopt i rest t))
      else adopt i rest t)"

text \<open>
  \<open>MarketTree.add\<close>. The argument is the dict \<open>item.dict() | {"date": date}\<close>, which has
  no \<open>children\<close> key: the \<open>children\<close> field of the argument is not read, it is
  overwritten by the list kept from the existing node or by the default.
\<close>

definition add :: "MarketTree \<Rightarrow> node \<Rightarrow> unit outcome" where
  "add t node =
     (let i = node_id node;
          child = (if node_type node = CATEGORY then Some [] else None);
          kept = (case map_of (nodes t) i of None \<Rightarrow> child | Some old \<Rightarrow> children old);
          t1 = t\<lparr>nodes := AList.update i (node\<lparr>children := kept\<rparr>) (nodes t)\<rparr>;
          step = (if truthy (price node) then
                    (case price node of
                       Some p \<Rightarrow> (Inr (), add_price t1 i (date node) p)
                     | None \<Rightarrow> (Inr (), t1))
                  else if node_type node = CATEGORY then adopt i (nodes t1) t1
                  else (Inr (), t1))
      in case step of
           (Inl e, t2) \<Rightarrow> (Inl e, t2)
         | (Inr u, t2) \<Rightarrow>
             (case parent_id node of
                None \<Rightarrow> (Inr (), t2)
              | Some p \<Rightarrow>
                  (case map_of (nodes t2) p of
                     None \<Rightarrow> (Inr (), t2)
                   | Some pn \<Rightarrow>
                       (case children pn of
                          None \<Rightarrow> (Inl TypeError, t2)
                        | Some cs \<Rightarrow>
                            if i \<notin> set cs
                            then (Inr (),
                                  t2\<lparr>nodes := AList.update p (pn\<lparr>children := Some (cs @ [i])\<rparr>) (nodes t2)\<rparr>)
                            else (Inr (), t2)))))"

text \<open>
  \<open>MarketTree.delete_node_by_id\<close>. \<open>None.remove\<close> raises \<open>AttributeError\<close>, \<open>remove\<close> of an
  absent element raises \<open>ValueError\<close>, and \<open>remove\<close> deletes the first occurrence only.
  The returned \<open>node\<close> is the dict object stored in the tree, so when a node is its own
  parent the returned value shows the shortened \<open>children\<close> list: it is read after the
  removal.
\<close>

definition delete_node_by_id :: "MarketTree \<Rightarrow> uuid \<Rightarrow> node option outcome" where
  "delete_node_by_id t i =
     (case map_of (nodes t) i of
        None \<Rightarrow> (Inr None, t)
      | Some node \<Rightarrow>
          (let unlinked =
                 (case parent_id node of
                    None \<Rightarrow> Inr t
                  | Some p \<Rightarrow>
                      (case map_of (nodes t) p of
                         None \<Rightarrow> Inr t
                       | Some pn \<Rightarrow>
                           (case children pn of
                              None \<Rightarrow> Inl AttributeError
                            | Some cs \<Rightarrow>
                                if i \<in> set cs
                                then Inr (t\<lparr>nodes := AList.update p
                                                 (pn\<lparr>children := Some (remove1 i cs)\<rparr>) (nodes t)\<rparr>)
                                else Inl ValueError)))
           in case unlinked of
                Inl e \<Rightarrow> (Inl e, t)
              | Inr t1 \<Rightarrow>
                  (case map_of (nodes t1) i of
                     None \<Rightarrow> (Inl KeyError, t1)
                   | Some node1 \<Rightarrow> (Inr (Some node1), t1\<lparr>nodes := AList.delete i (nodes t1)\<rparr>))))"

section \<open>Bulk upsert\<close>

text \<open>
  \<open>load_items\<close> of \<open>api/app.py\<close>. The calls to the relational store (\<open>add_item\<close>,
  \<open>add_price_for_item\<close>) only write to it and nothing here reads them back, so they
  are not part of the state. \<open>item_dict\<close> is \<open>item.dict() | {"date": date}\<close>.
\<close>

definition item_dict :: "ShopUnitImport \<Rightarrow> datetime \<Rightarrow> node" where
  "item_dict item d =
     \<lparr>node_id = unit_id item, name = unit_name item, parent_id = unit_parent_id item,
      node_type = unit_type item, price = unit_price item, date = d, children = None\<rparr>"

fun load_items_loop :: "datetime \<Rightarrow> ShopUnitImport list \<Rightarrow> MarketTree \<Rightarrow> unit outcome" where
  "load_items_loop d [] t = (Inr (), t)"
| "load_items_loop d (item # items) t =
     (if unit_type item = OFFER \<and> unit_price item = None then (Inl ValidationFailed, t)
      else (case add t (item_dict item d) of
              (Inl e, t1) \<Rightarrow> (Inl e, t1)
            | (Inr u, t1) \<Rightarrow> load_items_loop d items t1))"

definition load_items :: "MarketTree \<Rightarrow> ShopUnitImport list \<Rightarrow> datetime \<Rightarrow> unit outcome" where
  "load_items t items update_date = load_items_loop update_date items t"

section \<open>Aggregation over a subtree\<close>

text \<open>
  The two aggregations recurse through the \<open>children\<close> lists. Python bounds the depth
  of the recursion and raises \<open>RecursionError\<close> beyond it; the first argument is the
  number of frames still available. Looking up a child that is not in \<open>self.nodes\<close>
  raises \<open>KeyError\<close>, iterating over \<open>None\<close> and adding \<open>None\<close> to an integer raise
  \<open>TypeError\<close>.
\<close>

fun price_loop ::
  "(uuid \<Rightarrow> error + int \<times> int) \<Rightarrow> (uuid \<times> node) list \<Rightarrow> uuid list \<Rightarrow> int \<times> int \<Rightarrow> error + int \<times> int"
where
  "price_loop rec ns [] acc = Inr acc"
| "price_loop rec ns (k # ks) (amount, count_items) =
     (case map_of ns k of
        None \<Rightarrow> Inl KeyError
      | Some n \<Rightarrow>
          if node_type n = OFFER then
            (case price n of
               None \<Rightarrow> Inl TypeError
             | Some p \<Rightarrow> price_loop rec ns ks (amount + p, count_items + 1))
          else
            (case rec k of
               Inl e \<Rightarrow> Inl e
             | Inr (a, c) \<Rightarrow> price_loop rec ns ks (amount + a, count_items + c)))"

fun calculate_price_for_category :: "nat \<Rightarrow> MarketTree \<Rightarrow> uuid \<Rightarrow> error + int \<times> int" where
  "calculate_price_for_category 0 t i = Inl RecursionError"
| "calculate_price_for_category (Suc depth) t i =
     (case map_of (nodes t) i of
        None \<Rightarrow> Inl KeyError
      | Some n \<Rightarrow>
          (case children n of
             None \<Rightarrow> Inl TypeError
           | Some cs \<Rightarrow>
               price_loop (\<lambda>k. calculate_price_for_category depth t k) (nodes t) cs (0, 0)))"

fun date_loop ::
  "(uuid \<Rightarrow> error + datetime) \<Rightarrow> (uuid \<times> node) list \<Rightarrow> uuid list \<Rightarrow> datetime \<Rightarrow> error + datetime"
where
  "date_loop rec ns [] d = Inr d"
| "date_loop rec ns (k # ks) d =
     (case map_of ns k of
        None \<Rightarrow> Inl KeyError
      | Some n \<Rightarrow>
          if node_type n = OFFER then
            (if date n > d then date_loop rec ns ks (date n) else date_loop rec ns ks d)
          else
            (case rec k of
               Inl e \<Rightarrow> Inl e
             | Inr new_date \<Rightarrow>
                 if new_date > d then date_loop rec ns ks new_date else date_loop rec ns ks d))"

fun calculate_date_for_category :: "nat \<Rightarrow> MarketTree \<Rightarrow> uuid \<Rightarrow> error + datetime" where
  "calculate_date_for_category 0 t i = Inl RecursionError"
| "calculate_date_for_category (Suc depth) t i =
     (case map_of (nodes t) i of
        None \<Rightarrow> Inl KeyError
      | Some n \<Rightarrow>
          (case children n of
             None \<Rightarrow> Inl TypeError
           | Some cs \<Rightarrow>
               date_loop (\<lambda>k. calculate_date_for_category depth t k) (nodes t) cs (date n)))"

section \<open>The view of a node\<close>

text \<open>
  \<open>MarketTree.convert_date\<close> is \<open>date.strftime("%Y-%m-%dT%H:%M:%SZ")\<close>: the calendar
  fields of the timestamp down to the second, the microseconds dropped, and a literal
  \<open>Z\<close>. The date of a day count is computed in the proleptic Gregorian calendar, which
  is Python's; a year prints with four digits.
\<close>

definition digit :: "int \<Rightarrow> char" where
  "digit k = ''0123456789'' ! nat (k mod 10)"

definition two_digits :: "int \<Rightarrow> string" where
  "two_digits k = [digit (k div 10), digit k]"

definition four_digits :: "int \<Rightarrow> string" where
  "four_digits k = [digit (k div 1000), digit (k div 100), digit (k div 10), digit k]"

text \<open>Year, month and day of the day that lies \<open>z0\<close> days after 1970-01-01.\<close>

definition civil_from_days :: "int \<Rightarrow> int \<times> int \<times> int" where
  "civil_from_days z0 =
     (let z = z0 + 719468;
          era = z div 146097;
          doe = z - era * 146097;
          yoe = (doe - doe div 1460 + doe div 36524 - doe div 146096) div 365;
          doy = doe - (365 * yoe + yoe div 4 - yoe div 100);
          mp = (5 * doy + 2) div 153;
          d = doy - (153 * mp + 2) div 5 + 1;
          m = (if mp < 10 then mp + 3 else mp - 9);
          y = yoe + era * 400 + (if m \<le> 2 then 1 else 0)
      in (y, m, d))"

definition convert_date :: "datetime \<Rightarrow> string" where
  "convert_date dt =
     (let seconds = dt div 1000000;
          (y, m, d) = civil_from_days (seconds div 86400);
          s = seconds mod 86400
      in four_digits y @ ''-'' @ two_digits m @ ''-'' @ two_digits d @ ''T''
         @ two_digits (s div 3600) @ '':'' @ two_digits (s mod 3600 div 60) @ '':''
         @ two_digits (s mod 60) @ ''Z'')"

text \<open>The dict built by \<open>get_nodes\<close>; its \<open>date\<close> is the text of \<open>convert_date\<close>.\<close>

datatype view =
  View (view_date: string) (view_id: uuid) (view_name: string) (view_parentId: "uuid option")
       (view_type: ShopUnitType) (view_children: "view list option") (view_price: "int option")

text \<open>A list comprehension whose element expression may raise: the first error ends it.\<close>

fun comprehension :: "('a \<Rightarrow> error + 'b) \<Rightarrow> 'a list \<Rightarrow> error + 'b list" where
  "comprehension f [] = Inr []"
| "comprehension f (x # xs) =
     (case f x of
        Inl e \<Rightarrow> Inl e
      | Inr y \<Rightarrow> (case comprehension f xs of Inl e \<Rightarrow> Inl e | Inr ys \<Rightarrow> Inr (y # ys)))"

text \<open>
  \<open>MarketTree.get_nodes\<close>. In the category branch Python evaluates, in this order,
  \<open>calculate_price_for_category\<close>, the views of the children in sorted order,
  \<open>amount // count\<close> (which raises \<open>ZeroDivisionError\<close> when \<open>count\<close> is 0) and
  \<open>calculate_date_for_category\<close>. \<open>//\<close> on integers is floor division, as \<open>div\<close> is.
\<close>

fun get_nodes :: "nat \<Rightarrow> MarketTree \<Rightarrow> node \<Rightarrow> error + view" where
  "get_nodes 0 t node = Inl RecursionError"
| "get_nodes (Suc depth) t node =
     (case children node of
        Some cs \<Rightarrow>
          (case calculate_price_for_category depth t (node_id node) of
             Inl e \<Rightarrow> Inl e
           | Inr (amount, count_items) \<Rightarrow>
               (case comprehension
                       (\<lambda>k. case map_of (nodes t) k of
                              None \<Rightarrow> Inl KeyError
                            | Some n \<Rightarrow> get_nodes depth t n)
                       (sort cs) of
                  Inl e \<Rightarrow> Inl e
                | Inr views \<Rightarrow>
                    if count_items = 0 then Inl ZeroDivisionError
                    else
                      (case calculate_date_for_category depth t (node_id node) of
                         Inl e \<Rightarrow> Inl e
                       | Inr d \<Rightarrow>
                           Inr (View (convert_date d) (node_id node) (name node) (parent_id node)
                                  (node_type node) (Some views)
                                  (Some (amount div count_items))))))
      | None \<Rightarrow>
          Inr (View (convert_date (date node)) (node_id node) (name node) (parent_id node)
                 (node_type node) None (price node)))"

section \<open>Sales and statistics\<close>

text \<open>
  The entries of the \<open>items\<close> list of \<open>get_statistic_by_id\<close>: the \<open>date\<close> is the timestamp
  itself, the price is an integer taken from the ledger, or \<open>None\<close> for a category
  without offers, and the \<open>type\<close> is the member of the enumeration.
\<close>

record result_node =
  result_id :: uuid
  result_name :: string
  result_date :: datetime
  result_parentId :: "uuid option"
  result_price :: "int option"
  result_type :: ShopUnitType

text \<open>
  The entries of the \<open>items\<close> list of \<open>get_sales\<close>: the \<open>date\<close> is the text of
  \<open>convert_date\<close>, the price is the integer of the ledger, and the \<open>type\<close> is the
  \<open>value\<close> of the member, a string.
\<close>

record sale_node =
  sale_id :: uuid
  sale_name :: string
  sale_date :: string
  sale_parentId :: "uuid option"
  sale_price :: int
  sale_type :: string

fun type_value :: "ShopUnitType \<Rightarrow> string" where
  "type_value OFFER = ''OFFER''"
| "type_value CATEGORY = ''CATEGORY''"

text \<open>
  \<open>timedelta.days\<close>: a \<open>timedelta\<close> is normalised so that its seconds and microseconds
  are not negative, hence \<open>days\<close> is the floor of the difference over one day.
\<close>

definition days :: "timedelta \<Rightarrow> int" where
  "days difference = difference div 86400000000"

text \<open>
  \<open>list.sort(key=..., reverse=False)\<close> is a stable sort by the key, as \<open>sort_key\<close> is;
  with \<open>reverse=True\<close> Python reverses the list, sorts it and reverses the result, which
  keeps equal keys in their original order.
\<close>

definition sort_ascending :: "(datetime \<times> int) list \<Rightarrow> (datetime \<times> int) list" where
  "sort_ascending h = sort_key fst h"

definition sort_descending :: "(datetime \<times> int) list \<Rightarrow> (datetime \<times> int) list" where
  "sort_descending h = rev (sort_key fst (rev h))"

text \<open>
  \<open>MarketTree.get_sales\<close>: the loop over the keys of \<open>price_by_id\<close>. Each history is
  sorted in place, then its first entry with \<open>difference.days <= 1\<close> is reported and the
  inner loop left; \<open>self.nodes[id]\<close> raises \<open>KeyError\<close> when the offer is not in the tree.
\<close>

fun sales_loop ::
  "datetime \<Rightarrow> uuid list \<Rightarrow> MarketTree \<Rightarrow> sale_node list \<Rightarrow> sale_node list outcome"
where
  "sales_loop d [] t items = (Inr items, t)"
| "sales_loop d (i # ids) t items =
     (case map_of (price_by_id t) i of
        None \<Rightarrow> (Inl KeyError, t)
      | Some h \<Rightarrow>
          (let t1 = t\<lparr>price_by_id := AList.update i (sort_descending h) (price_by_id t)\<rparr> in
           case find (\<lambda>(node_date, node_price). days (d - node_date) \<le> 1) (sort_descending h) of
             None \<Rightarrow> sales_loop d ids t1 items
           | Some (node_date, node_price) \<Rightarrow>
               (case map_of (nodes t1) i of
                  None \<Rightarrow> (Inl KeyError, t1)
                | Some node \<Rightarrow>
                    sales_loop d ids t1
                      (items @ [\<lparr>sale_id = node_id node, sale_name = name node,
                                 sale_date = convert_date node_date,
                                 sale_parentId = parent_id node, sale_price = node_price,
                                 sale_type = type_value (node_type node)\<rparr>]))))"

definition get_sales :: "MarketTree \<Rightarrow> datetime \<Rightarrow> sale_node list outcome" where
  "get_sales t d = sales_loop d (map fst (price_by_id t)) t []"

text \<open>
  The chain of conditions that sets \<open>result_date\<close> in \<open>get_statistic_by_id\<close>. A \<open>datetime\<close>
  is always true in a condition, so \<open>start_date and ...\<close> tests that the bound is given.
\<close>

definition select_date :: "datetime option \<Rightarrow> datetime option \<Rightarrow> datetime \<Rightarrow> datetime option" where
  "select_date start_date end_date node_date =
     (if (case (start_date, end_date) of
            (Some s, Some e) \<Rightarrow> s \<le> node_date \<and> node_date \<le> e | _ \<Rightarrow> False)
      then Some node_date
      else if (case (start_date, end_date) of (Some s, None) \<Rightarrow> s \<le> node_date | _ \<Rightarrow> False)
      then Some node_date
      else if (case (end_date, start_date) of (Some e, None) \<Rightarrow> node_date \<le> e | _ \<Rightarrow> False)
      then Some node_date
      else if start_date = None \<and> end_date = None then Some node_date
      else None)"

fun statistic_loop ::
  "node \<Rightarrow> uuid \<Rightarrow> datetime option \<Rightarrow> datetime option \<Rightarrow> (datetime \<times> int) list \<Rightarrow> result_node list"
where
  "statistic_loop n i start_date end_date [] = []"
| "statistic_loop n i start_date end_date ((node_date, node_price) # h) =
     (case select_date start_date end_date node_date of
        None \<Rightarrow> statistic_loop n i start_date end_date h
      | Some d \<Rightarrow>
          \<lparr>result_id = i, result_name = name n, result_date = d, result_parentId = parent_id n,
           result_price = Some node_price, result_type = node_type n\<rparr>
          # statistic_loop n i start_date end_date h)"

text \<open>
  \<open>MarketTree.get_statistic_by_id\<close>. The offer branch sorts the history in place;
  \<open>self.price_by_id[id]\<close> raises \<open>KeyError\<close> when the offer has no history.
\<close>

definition get_statistic_by_id ::
  "nat \<Rightarrow> MarketTree \<Rightarrow> uuid \<Rightarrow> datetime option \<Rightarrow> datetime option \<Rightarrow> result_node list outcome"
where
  "get_statistic_by_id depth t i start_date end_date =
     (case map_of (nodes t) i of
        None \<Rightarrow> (Inl KeyError, t)
      | Some n \<Rightarrow>
          if node_type n = OFFER then
            (case map_of (price_by_id t) i of
               None \<Rightarrow> (Inl KeyError, t)
             | Some h \<Rightarrow>
                 (Inr (statistic_loop n i start_date end_date (sort_ascending h)),
                  t\<lparr>price_by_id := AList.update i (sort_ascending h) (price_by_id t)\<rparr>))
          else
            (case calculate_date_for_category depth t i of
               Inl e \<Rightarrow> (Inl e, t)
             | Inr node_date \<Rightarrow>
                 (case calculate_price_for_category depth t i of
                    Inl e \<Rightarrow> (Inl e, t)
                  | Inr (amount, count_items) \<Rightarrow>
                      (let node_price = (if count_items = 0 then None
                                         else Some (amount div count_items))
                       in case select_date start_date end_date node_date of
                            None \<Rightarrow> (Inr [], t)
                          | Some d \<Rightarrow>
                              (Inr [\<lparr>result_id = i, result_name = name n, result_date = d,
                                     result_parentId = parent_id n, result_price = node_price,
                                     result_type = node_type n\<rparr>], t)))))"

section \<open>The request handlers\<close>

text \<open>
  The keys of a node's dict are the seven field names, which are strings. The handler
  of deletion tests \<open>id in tree.nodes[id]\<close>, a key test on that dict with a UUID.
\<close>

datatype dict_key = StrKey string | UuidKey uuid

definition node_keys :: "node \<Rightarrow> dict_key list" where
  "node_keys n = [StrKey ''id'', StrKey ''name'', StrKey ''parent_id'', StrKey ''type'',
                  StrKey ''price'', StrKey ''date'', StrKey ''children'']"

text \<open>
  \<open>delete_item_by_id\<close> of \<open>api/app.py\<close>. \<open>delete_item\<close> asks the relational store to
  remove the row; whether it found one is the argument \<open>deleted\<close>. The result is the
  body of the response, \<open>None\<close> when the function falls off its end.
\<close>

definition delete_item_by_id :: "MarketTree \<Rightarrow> bool \<Rightarrow> uuid \<Rightarrow> nat option outcome" where
  "delete_item_by_id t deleted i =
     (if \<not> deleted then (Inl NotFound, t)
      else
        (case map_of (nodes t) i of
           None \<Rightarrow> (Inl KeyError, t)
         | Some n \<Rightarrow>
             (case (if UuidKey i \<in> set (node_keys n) \<and> node_type n = OFFER
                    then delete_price_by_id t i else (Inr (), t)) of
                (Inl e, t1) \<Rightarrow> (Inl e, t1)
              | (Inr u, t1) \<Rightarrow>
                  (case delete_node_by_id t1 i of
                     (Inl e, t2) \<Rightarrow> (Inl e, t2)
                   | (Inr None, t2) \<Rightarrow> (Inr None, t2)
                   | (Inr (Some removed), t2) \<Rightarrow> (Inr (Some 200), t2)))))"

definition get_nodes_by_id :: "nat \<Rightarrow> MarketTree \<Rightarrow> uuid \<Rightarrow> error + view" where
  "get_nodes_by_id depth t i =
     (case map_of (nodes t) i of
        None \<Rightarrow> Inl NotFound
      | Some n \<Rightarrow> get_nodes depth t n)"

text \<open>The handler \<open>get_statistic_by_id\<close> of \<open>api/app.py\<close>: the two checks, then the tree.\<close>

definition api_get_statistic_by_id ::
  "nat \<Rightarrow> MarketTree \<Rightarrow> uuid \<Rightarrow> datetime option \<Rightarrow> datetime option \<Rightarrow> result_node list outcome"
where
  "api_get_statistic_by_id depth t i dateStart dateEnd =
     (if (case (dateEnd, dateStart) of (Some e, Some s) \<Rightarrow> e < s | _ \<Rightarrow> False)
      then (Inl ValidationFailed, t)
      else if map_of (nodes t) i = None then (Inl NotFound, t)
      else get_statistic_by_id depth t i dateStart dateEnd)"

section \<open>Notions used in the statements and proofs\<close>

text \<open>
  The three steps of \<open>add\<close>, named so that each can be reasoned about on its own:
  the assignment to \<open>self.nodes[id]\<close>, the \<open>if\<close>/\<open>elif\<close> on the price, and the
  link into the parent (\<open>add_unfold\<close> below shows that \<open>add\<close> is their composition).
\<close>

definition written :: "MarketTree \<Rightarrow> node \<Rightarrow> node" where
  "written t node =
     node\<lparr>children := (case map_of (nodes t) (node_id node) of
                          None \<Rightarrow> (if node_type node = CATEGORY then Some [] else None)
                        | Some old \<Rightarrow> children old)\<rparr>"

definition write_node :: "MarketTree \<Rightarrow> node \<Rightarrow> MarketTree" where
  "write_node t node = t\<lparr>nodes := AList.update (node_id node) (written t node) (nodes t)\<rparr>"

definition record_price :: "MarketTree \<Rightarrow> node \<Rightarrow> unit outcome" where
  "record_price t1 node =
     (if truthy (price node) then
        (case price node of
           Some p \<Rightarrow> (Inr (), add_price t1 (node_id node) (date node) p)
         | None \<Rightarrow> (Inr (), t1))
      else if node_type node = CATEGORY then adopt (node_id node) (nodes t1) t1
      else (Inr (), t1))"

definition link_parent :: "MarketTree \<Rightarrow> uuid \<Rightarrow> uuid option \<Rightarrow> unit outcome" where
  "link_parent t2 i parent =
     (case parent of
        None \<Rightarrow> (Inr (), t2)
      | Some p \<Rightarrow>
          (case map_of (nodes t2) p of
             None \<Rightarrow> (Inr (), t2)
           | Some pn \<Rightarrow>
               (case children pn of
                  None \<Rightarrow> (Inl TypeError, t2)
                | Some cs \<Rightarrow>
                    if i \<notin> set cs
                    then (Inr (),
                          t2\<lparr>nodes := AList.update p (pn\<lparr>children := Some (cs @ [i])\<rparr>) (nodes t2)\<rparr>)
                    else (Inr (), t2))))"

text \<open>The tree with every \<open>children\<close> field erased: what upserts leave alone in other nodes.\<close>

definition skeleton :: "MarketTree \<Rightarrow> uuid \<Rightarrow> node option" where
  "skeleton t k = map_option (\<lambda>n. n\<lparr>children := None\<rparr>) (map_of (nodes t) k)"

text \<open>Invariant I1 of the data model: \<open>children\<close> is \<open>None\<close> exactly for an offer.\<close>

definition tree_shape :: "MarketTree \<Rightarrow> bool" where
  "tree_shape t = (\<forall>(k, n) \<in> set (nodes t). (children n = None) = (node_type n = OFFER))"

text \<open>The test of \<open>load_items\<close> that rejects an item, and the test of the handler on the bounds.\<close>

definition lacks_price :: "ShopUnitImport \<Rightarrow> bool" where
  "lacks_price item = (unit_type item = OFFER \<and> unit_price item = None)"

definition inverted :: "datetime option \<Rightarrow> datetime option \<Rightarrow> bool" where
  "inverted start_date end_date =
     (case (end_date, start_date) of (Some e, Some s) \<Rightarrow> e < s | _ \<Rightarrow> False)"

text \<open>
  The interval of the statistics query in the words of the specification: closed on both
  sides, and unbounded on the side of an absent bound.
\<close>

definition in_closed_interval :: "datetime option \<Rightarrow> datetime option \<Rightarrow> datetime \<Rightarrow> bool" where
  "in_closed_interval start_date end_date d =
     ((case start_date of None \<Rightarrow> True | Some s \<Rightarrow> s \<le> d)
      \<and> (case end_date of None \<Rightarrow> True | Some e \<Rightarrow> d \<le> e))"

text \<open>The observation that an entry of a result reports: its timestamp and its price.\<close>

definition observation :: "result_node \<Rightarrow> datetime \<times> int option" where
  "observation r = (result_date r, result_price r)"

text \<open>The test of the inner loop of \<open>get_sales\<close> on an observation of the ledger.\<close>

definition qualifies :: "datetime \<Rightarrow> datetime \<times> int \<Rightarrow> bool" where
  "qualifies d = (\<lambda>(node_date, node_price). days (d - node_date) \<le> 1)"

text \<open>What one round of the outer loop of \<open>get_sales\<close> appends for the key \<open>i\<close>.\<close>

definition sale_of :: "MarketTree \<Rightarrow> datetime \<Rightarrow> uuid \<Rightarrow> sale_node list" where
  "sale_of t d i =
     (case map_of (price_by_id t) i of
        None \<Rightarrow> []
      | Some h \<Rightarrow>
          (case find (qualifies d) (sort_descending h) of
             None \<Rightarrow> []
           | Some (node_date, node_price) \<Rightarrow>
               (case map_of (nodes t) i of
                  None \<Rightarrow> []
                | Some node \<Rightarrow>
                    [\<lparr>sale_id = node_id node, sale_name = name node,
                      sale_date = convert_date node_date, sale_parentId = parent_id node,
                      sale_price = node_price, sale_type = type_value (node_type node)\<rparr>])))"

text \<open>
  The ledger is consistent with the tree for a request at \<open>d\<close>: the keys of the dict are
  distinct, and every offer with an observation that qualifies is stored in the tree
  under its own identifier.
\<close>

definition ledger_in_tree :: "MarketTree \<Rightarrow> datetime \<Rightarrow> bool" where
  "ledger_in_tree t d =
     (distinct (map fst (price_by_id t))
      \<and> (\<forall>(i, h) \<in> set (price_by_id t).
            (\<exists>ob \<in> set h. qualifies d ob) \<longrightarrow>
            (case map_of (nodes t) i of None \<Rightarrow> False | Some n \<Rightarrow> node_id n = i)))"

text \<open>
  Invariant I2 of the data model at the node \<open>n\<close> stored under \<open>i\<close>: when its parent is in
  the tree, the parent's \<open>children\<close> list contains \<open>i\<close>.
\<close>

definition parent_lists :: "MarketTree \<Rightarrow> uuid \<Rightarrow> node \<Rightarrow> bool" where
  "parent_lists t i n =
     (case parent_id n of
        None \<Rightarrow> True
      | Some p \<Rightarrow>
          (case map_of (nodes t) p of
             None \<Rightarrow> True
           | Some pn \<Rightarrow> (case children pn of None \<Rightarrow> False | Some cs \<Rightarrow> i \<in> set cs)))"

text \<open>The node \<open>m\<close> after \<open>i\<close> was removed from its \<open>children\<close> list.\<close>

definition without_child :: "uuid \<Rightarrow> node \<Rightarrow> node" where
  "without_child i m = m\<lparr>children := map_option (remove1 i) (children m)\<rparr>"

text \<open>No \<open>children\<close> list of the tree holds an identifier twice.\<close>

definition children_distinct :: "MarketTree \<Rightarrow> bool" where
  "children_distinct t =
     (\<forall>(k, n) \<in> set (nodes t). case children n of None \<Rightarrow> True | Some cs \<Rightarrow> distinct cs)"

text \<open>
  What the dicts guarantee by construction: the keys of the ledger are distinct, and a
  node is stored under its own identifier.
\<close>

definition keys_agree :: "MarketTree \<Rightarrow> bool" where
  "keys_agree t =
     (distinct (map fst (price_by_id t)) \<and> (\<forall>(k, n) \<in> set (nodes t). node_id n = k))"

text \<open>The trees that the request handlers can produce, starting from the empty tree.\<close>

inductive reachable :: "MarketTree \<Rightarrow> bool" where
  at_start: "reachable init"
| after_imports: "reachable t \<Longrightarrow> reachable (snd (load_items t items update_date))"
| after_delete: "reachable t \<Longrightarrow> reachable (snd (delete_item_by_id t deleted i))"
| after_sales: "reachable t \<Longrightarrow> reachable (snd (get_sales t d))"
| after_statistic: "reachable t \<Longrightarrow> reachable (snd (api_get_statistic_by_id depth t i dateStart dateEnd))"

section \<open>Concrete units and trees\<close>

text \<open>
  The inputs on which the theorems are instantiated. Each tree is the result of a bulk
  upsert, so that it is a tree the handlers produce.
\<close>

definition offer_1 :: ShopUnitImport where
  "offer_1 = \<lparr>unit_id = 1, unit_name = ''o1'', unit_parent_id = None, unit_type = OFFER,
              unit_price = Some 100\<rparr>"

definition offer_2_in_1 :: ShopUnitImport where
  "offer_2_in_1 = \<lparr>unit_id = 2, unit_name = ''o2'', unit_parent_id = Some 1, unit_type = OFFER,
              unit_price = Some 50\<rparr>"

definition free_offer :: ShopUnitImport where
  "free_offer = \<lparr>unit_id = 3, unit_name = ''o3'', unit_parent_id = None, unit_type = OFFER,
              unit_price = Some 0\<rparr>"

definition unpriced_offer :: ShopUnitImport where
  "unpriced_offer = \<lparr>unit_id = 4, unit_name = ''o4'', unit_parent_id = None, unit_type = OFFER,
              unit_price = None\<rparr>"

definition offer_1_repriced :: ShopUnitImport where
  "offer_1_repriced = \<lparr>unit_id = 1, unit_name = ''o1'', unit_parent_id = None, unit_type = OFFER,
              unit_price = Some 300\<rparr>"

definition category_5 :: ShopUnitImport where
  "category_5 = \<lparr>unit_id = 5, unit_name = ''c5'', unit_parent_id = None, unit_type = CATEGORY,
                 unit_price = None\<rparr>"

definition category_6_in_5 :: ShopUnitImport where
  "category_6_in_5 = \<lparr>unit_id = 6, unit_name = ''c6'', unit_parent_id = Some 5,
                      unit_type = CATEGORY, unit_price = None\<rparr>"

definition offer_7_in_6 :: ShopUnitImport where
  "offer_7_in_6 = \<lparr>unit_id = 7, unit_name = ''o7'', unit_parent_id = Some 6, unit_type = OFFER,
                   unit_price = Some 40\<rparr>"

definition priced_category_1 :: ShopUnitImport where
  "priced_category_1 = \<lparr>unit_id = 1, unit_name = ''c1'', unit_parent_id = None,
                        unit_type = CATEGORY, unit_price = Some 5\<rparr>"

definition plain_category_1 :: ShopUnitImport where
  "plain_category_1 = \<lparr>unit_id = 1, unit_name = ''c1'', unit_parent_id = None,
                       unit_type = CATEGORY, unit_price = None\<rparr>"

definition offer_9 :: ShopUnitImport where
  "offer_9 = \<lparr>unit_id = 9, unit_name = ''o9'', unit_parent_id = None, unit_type = OFFER,
              unit_price = Some 70\<rparr>"

definition offer_7_in_5 :: ShopUnitImport where
  "offer_7_in_5 = \<lparr>unit_id = 7, unit_name = ''o7'', unit_parent_id = Some 5, unit_type = OFFER,
                   unit_price = Some 40\<rparr>"

definition offer_8_in_5 :: ShopUnitImport where
  "offer_8_in_5 = \<lparr>unit_id = 8, unit_name = ''o8'', unit_parent_id = Some 5, unit_type = OFFER,
                   unit_price = Some 100\<rparr>"

definition tree_1 :: MarketTree where
  "tree_1 = snd (load_items init [offer_1] 1000)"

definition tree_2 :: MarketTree where
  "tree_2 = snd (load_items tree_1 [offer_1_repriced] 500)"

definition tree_3 :: MarketTree where
  "tree_3 = snd (load_items init [category_5, category_6_in_5, offer_7_in_6] 1000)"

definition tree_4 :: MarketTree where
  "tree_4 = snd (load_items init [offer_2_in_1] 1000)"

definition tree_5 :: MarketTree where
  "tree_5 = snd (load_items tree_4 [plain_category_1] 2000)"

definition tree_6 :: MarketTree where
  "tree_6 = snd (load_items init [category_5] 1000)"

definition tree_7 :: MarketTree where
  "tree_7 = snd (load_items init [free_offer] 1000)"

definition tree_8 :: MarketTree where
  "tree_8 = snd (load_items init [offer_1, offer_9] 1000)"

definition tree_9 :: MarketTree where
  "tree_9 = snd (load_items tree_4 [offer_1] 2000)"

definition tree_10 :: MarketTree where
  "tree_10 = snd (load_items tree_4 [priced_category_1] 2000)"

definition tree_12 :: MarketTree where
  "tree_12 = snd (load_items
                   (snd (load_items init
                           [category_5, category_6_in_5, offer_7_in_5, offer_8_in_5] 1000))
                   [offer_7_in_6] 2000)"

definition tree_11 :: MarketTree where
  "tree_11 = snd (load_items
                   (snd (load_items init [category_5, category_6_in_5, offer_7_in_5] 1000))
                   [offer_7_in_6] 2000)"

section \<open>Properties of upsert\<close>

lemma adopt_None:
  "map_of (nodes t) i = Some n \<Longrightarrow> children n = None \<Longrightarrow>
   adopt i es t = (if \<exists>(k, ni) \<in> set es. parent_id ni = Some i then (Inl TypeError, t) else (Inr (), t))"
  by (induction es arbitrary: t) (auto split: prod.splits)

lemma adopt_Some:
  "map_of (nodes t) i = Some n \<Longrightarrow> children n = Some cs \<Longrightarrow>
   \<exists>cs'. adopt i es t = (Inr (), t\<lparr>nodes := AList.update i (n\<lparr>children := Some cs'\<rparr>) (nodes t)\<rparr>)
     \<and> set cs' = set cs \<union> {k. \<exists>ni. (k, ni) \<in> set es \<and> parent_id ni = Some i}
     \<and> (distinct cs \<longrightarrow> distinct cs')"
proof (induction es arbitrary: t n cs)
  case Nil
  then show ?case
    by (auto intro!: exI[of _ cs] simp: AList.update_triv)
next
  case (Cons e es)
  obtain k ni where e: "e = (k, ni)" by (cases e)
  show ?case
  proof (cases "parent_id ni = Some i \<and> k \<notin> set cs")
    case False
    from Cons.IH[OF Cons.prems] obtain cs' where
      c: "adopt i es t = (Inr (), t\<lparr>nodes := AList.update i (n\<lparr>children := Some cs'\<rparr>) (nodes t)\<rparr>)"
      and d: "set cs' = set cs \<union> {k. \<exists>ni. (k, ni) \<in> set es \<and> parent_id ni = Some i}"
      and f: "distinct cs \<longrightarrow> distinct cs'" by blast
    have "adopt i (e # es) t = adopt i es t"
      using False Cons.prems e by auto
    moreover have "{k'. \<exists>ni'. (k', ni') \<in> set (e # es) \<and> parent_id ni' = Some i} \<subseteq>
        set cs \<union> {k. \<exists>ni. (k, ni) \<in> set es \<and> parent_id ni = Some i}"
      using False e by auto
    ultimately show ?thesis
      using c d f by (intro exI[of _ cs']) auto
  next
    case True
    let ?n = "n\<lparr>children := Some (cs @ [k])\<rparr>"
    let ?t = "t\<lparr>nodes := AList.update i ?n (nodes t)\<rparr>"
    have a: "map_of (nodes ?t) i = Some ?n" by (simp add: AList.update_conv')
    have b: "children ?n = Some (cs @ [k])" by simp
    from Cons.IH[OF a b] obtain cs' where
      c: "adopt i es ?t = (Inr (), ?t\<lparr>nodes := AList.update i (?n\<lparr>children := Some cs'\<rparr>) (nodes ?t)\<rparr>)"
      and d: "set cs' = set (cs @ [k]) \<union> {k. \<exists>ni. (k, ni) \<in> set es \<and> parent_id ni = Some i}"
      and f: "distinct (cs @ [k]) \<longrightarrow> distinct cs'" by blast
    show ?thesis
      apply (rule exI[of _ cs'])
      using True Cons.prems e c d f by auto
  qed
qed

lemma map_of_update_if:
  "map_of (AList.update k v al) k' = (if k' = k then Some v else map_of al k')"
  by (simp add: AList.update_conv')

lemma nodes_add_price [simp]: "nodes (add_price t i d p) = nodes t"
  by (simp add: add_price_def split: option.splits)

lemma adopt_frame:
  "map_of (nodes t) i = Some n \<Longrightarrow> adopt i es t = (r, t') \<Longrightarrow>
     price_by_id t' = price_by_id t
     \<and> (\<forall>k. k \<noteq> i \<longrightarrow> map_of (nodes t') k = map_of (nodes t) k)
     \<and> (r = Inr () \<or> r = Inl TypeError)
     \<and> (\<exists>c. map_of (nodes t') i = Some (n\<lparr>children := c\<rparr>)
             \<and> (children n = None \<longrightarrow> c = None))"
proof (cases "children n")
  case None
  assume a: "map_of (nodes t) i = Some n" "adopt i es t = (r, t')"
  have "n\<lparr>children := None\<rparr> = n" using None by simp
  then show ?thesis using adopt_None[OF a(1) None, of es] a None
    by (auto split: if_splits intro: exI[of _ None])
next
  case (Some cs)
  assume a: "map_of (nodes t) i = Some n" "adopt i es t = (r, t')"
  from adopt_Some[OF a(1) Some, of es] a Some show ?thesis
    by (auto simp: map_of_update_if)
qed

lemma add_unfold:
  "add t node =
     (case record_price (write_node t node) node of
        (Inl e, t2) \<Rightarrow> (Inl e, t2)
      | (Inr u, t2) \<Rightarrow> link_parent t2 (node_id node) (parent_id node))"
  unfolding add_def Let_def written_def write_node_def record_price_def link_parent_def
  by (rule refl)

lemma written_fields [simp]:
  "node_id (written t node) = node_id node" "parent_id (written t node) = parent_id node"
  "node_type (written t node) = node_type node" "price (written t node) = price node"
  "date (written t node) = date node" "name (written t node) = name node"
  by (simp_all add: written_def)

lemma children_written:
  "children (written t node) =
     (case map_of (nodes t) (node_id node) of
        None \<Rightarrow> (if node_type node = CATEGORY then Some [] else None)
      | Some old \<Rightarrow> children old)"
  by (simp add: written_def)

lemma map_of_write_node:
  "map_of (nodes (write_node t node)) k =
     (if k = node_id node then Some (written t node) else map_of (nodes t) k)"
  by (simp add: write_node_def map_of_update_if)

lemma price_by_id_write_node [simp]: "price_by_id (write_node t node) = price_by_id t"
  by (simp add: write_node_def)

lemma record_price_frame:
  assumes "record_price (write_node t node) node = (r, t2)"
  shows "(r = Inr () \<or> r = Inl TypeError)
     \<and> (\<forall>k. k \<noteq> node_id node \<longrightarrow> map_of (nodes t2) k = map_of (nodes t) k)
     \<and> (\<exists>c. map_of (nodes t2) (node_id node) = Some ((written t node)\<lparr>children := c\<rparr>)
             \<and> (children (written t node) = None \<longrightarrow> c = None))"
proof -
  have n1: "map_of (nodes (write_node t node)) (node_id node) = Some (written t node)"
    by (simp add: map_of_write_node)
  have triv: "(written t node)\<lparr>children := children (written t node)\<rparr> = written t node" by simp
  show ?thesis
  proof (cases "\<not> truthy (price node) \<and> node_type node = CATEGORY")
    case True
    then have "adopt (node_id node) (nodes (write_node t node)) (write_node t node) = (r, t2)"
      using assms by (simp add: record_price_def)
    from adopt_frame[OF n1 this] show ?thesis by (auto simp: map_of_write_node)
  next
    case False
    then have "r = Inr ()" "nodes t2 = nodes (write_node t node)"
      using assms by (auto simp: record_price_def split: option.splits if_splits)
    then show ?thesis using triv
      by (auto simp: map_of_write_node intro!: exI[of _ "children (written t node)"])
  qed
qed

lemma add_offer_parent_fails:
  assumes "parent_id node = Some p" and "map_of (nodes t) p = Some pn" and "children pn = None"
  shows "fst (add t node) = Inl TypeError"
proof -
  obtain r t2 where a: "record_price (write_node t node) node = (r, t2)"
    by (cases "record_price (write_node t node) node")
  note f = record_price_frame[OF a]
  have "\<exists>pn2. map_of (nodes t2) p = Some pn2 \<and> children pn2 = None"
  proof (cases "p = node_id node")
    case True
    then have "children (written t node) = None" using assms by (simp add: children_written)
    then show ?thesis using f True by auto
  next
    case False
    then show ?thesis using f assms by auto
  qed
  then show ?thesis using f a assms(1)
    by (auto simp: add_unfold link_parent_def split: option.splits)
qed

lemma price_by_id_adopt: "price_by_id (snd (adopt i es t)) = price_by_id t"
  by (induction es arbitrary: t) (auto split: option.splits)

lemma price_by_id_record_price:
  "price_by_id (snd (record_price (write_node t node) node)) =
     (case price node of
        None \<Rightarrow> price_by_id t
      | Some p \<Rightarrow> if p = 0 then price_by_id t
                  else price_by_id (add_price t (node_id node) (date node) p))"
  by (auto simp: record_price_def price_by_id_adopt truthy_def add_price_def write_node_def
           split: option.splits)

lemma skeleton_update:
  "map_of (nodes t) p = Some pn \<Longrightarrow>
   skeleton (t\<lparr>nodes := AList.update p (pn\<lparr>children := c\<rparr>) (nodes t)\<rparr>) = skeleton t"
  by (auto simp: skeleton_def map_of_update_if fun_eq_iff)

lemma skeleton_Some:
  "skeleton t' = skeleton t \<Longrightarrow> map_of (nodes t) k = Some n \<Longrightarrow>
   \<exists>c. map_of (nodes t') k = Some (n\<lparr>children := c\<rparr>)"
proof -
  assume a: "skeleton t' = skeleton t" "map_of (nodes t) k = Some n"
  then have "skeleton t' k = Some (n\<lparr>children := None\<rparr>)" by (simp add: skeleton_def)
  then obtain n' where n': "map_of (nodes t') k = Some n'" "n'\<lparr>children := None\<rparr> = n\<lparr>children := None\<rparr>"
    by (auto simp: skeleton_def)
  have "n' = n'\<lparr>children := None\<rparr>\<lparr>children := children n'\<rparr>" by simp
  also have "\<dots> = n\<lparr>children := children n'\<rparr>" using n'(2) by simp
  finally have "map_of (nodes t') k = Some (n\<lparr>children := children n'\<rparr>)" using n'(1) by simp
  then show ?thesis by (rule exI)
qed

lemma skeleton_None:
  "skeleton t' = skeleton t \<Longrightarrow> map_of (nodes t) k = None \<Longrightarrow> map_of (nodes t') k = None"
  by (metis skeleton_def map_option_is_None)

lemma link_parent_frame:
  assumes "link_parent t2 i parent = (r, t3)"
  shows "price_by_id t3 = price_by_id t2 \<and> (r = Inr () \<or> r = Inl TypeError)
     \<and> skeleton t3 = skeleton t2"
  using assms
  by (auto simp: link_parent_def skeleton_update split: option.splits if_splits)

lemma adopt_skeleton: "skeleton (snd (adopt i es t)) = skeleton t"
  by (induction es arbitrary: t) (auto simp: skeleton_update split: option.splits)

lemma record_price_skeleton:
  "skeleton (snd (record_price t1 node)) = skeleton t1"
  by (auto simp: record_price_def adopt_skeleton skeleton_def split: option.splits)

lemma skeleton_write_node:
  "skeleton (write_node t node) = (skeleton t)(node_id node \<mapsto> node\<lparr>children := None\<rparr>)"
  by (auto simp: skeleton_def map_of_write_node written_def fun_eq_iff)

lemma add_skeleton:
  "skeleton (snd (add t node)) = (skeleton t)(node_id node \<mapsto> node\<lparr>children := None\<rparr>)"
proof -
  obtain r t2 where a: "record_price (write_node t node) node = (r, t2)"
    by (cases "record_price (write_node t node) node")
  obtain r3 t3 where b: "link_parent t2 (node_id node) (parent_id node) = (r3, t3)"
    by (cases "link_parent t2 (node_id node) (parent_id node)")
  have "skeleton t2 = skeleton (write_node t node)"
    using record_price_skeleton[of "write_node t node" node] a by simp
  moreover have "skeleton t3 = skeleton t2" using link_parent_frame[OF b] by simp
  moreover have "snd (add t node) = t2 \<or> snd (add t node) = t3"
    using a b by (auto simp: add_unfold split: sum.splits)
  ultimately show ?thesis by (auto simp: skeleton_write_node)
qed

lemma add_price_by_id:
  "price_by_id (snd (add t node)) =
     (case price node of
        None \<Rightarrow> price_by_id t
      | Some p \<Rightarrow> if p = 0 then price_by_id t
                  else price_by_id (add_price t (node_id node) (date node) p))"
proof -
  obtain r t2 where a: "record_price (write_node t node) node = (r, t2)"
    by (cases "record_price (write_node t node) node")
  obtain r3 t3 where b: "link_parent t2 (node_id node) (parent_id node) = (r3, t3)"
    by (cases "link_parent t2 (node_id node) (parent_id node)")
  have "price_by_id t3 = price_by_id t2" using link_parent_frame[OF b] by simp
  moreover have "snd (add t node) = t2 \<or> snd (add t node) = t3"
    using a b by (auto simp: add_unfold split: sum.splits)
  ultimately show ?thesis using price_by_id_record_price[of t node] a by auto
qed

lemma add_error: "fst (add t node) = Inr () \<or> fst (add t node) = Inl TypeError"
proof -
  obtain r t2 where a: "record_price (write_node t node) node = (r, t2)"
    by (cases "record_price (write_node t node) node")
  obtain r3 t3 where b: "link_parent t2 (node_id node) (parent_id node) = (r3, t3)"
    by (cases "link_parent t2 (node_id node) (parent_id node)")
  show ?thesis using record_price_frame[OF a] link_parent_frame[OF b] a b
    by (auto simp: add_unfold split: sum.splits)
qed

lemma tree_1_eq:
  "tree_1 = \<lparr>nodes = [(1, \<lparr>node_id = 1, name = ''o1'', parent_id = None, node_type = OFFER,
                              price = Some 100, date = 1000, children = None\<rparr>)],
             price_by_id = [(1, [(1000, 100)])]\<rparr>"
  by (simp add: tree_1_def load_items_def init_def offer_1_def item_dict_def add_def Let_def
        truthy_def add_price_def)

lemma load_items_loop_append:
  "load_items_loop d (xs @ ys) t =
     (case load_items_loop d xs t of
        (Inl e, t1) \<Rightarrow> (Inl e, t1)
      | (Inr u, t1) \<Rightarrow> load_items_loop d ys t1)"
  by (induction xs arbitrary: t) (auto split: prod.splits sum.splits)

lemma load_items_loop_applied:
  "fst (load_items_loop d xs t) = Inr () \<Longrightarrow>
     snd (load_items_loop d xs t) = foldl (\<lambda>s x. snd (add s (item_dict x d))) t xs"
  by (induction xs arbitrary: t) (auto split: prod.splits sum.splits if_splits)

text \<open>
  Claim C8, as stated, fails: a batch does not always reach its first offer without a
  price. In the batch of the offer 1, the offer 2 under the offer 1 and the offer 4 without
  a price, the third item is the first offer that lacks a price, and the request ends at
  the second item with the \<open>TypeError\<close> of \<open>add\<close> (claim C9), not with ValidationFailed.
\<close>

theorem bulk_upsert_stops_at_type_error:
  "\<not> lacks_price offer_1 \<and> \<not> lacks_price offer_2_in_1 \<and> lacks_price unpriced_offer
   \<and> fst (load_items init [offer_1, offer_2_in_1, unpriced_offer] 1000) = Inl TypeError"
  by (simp add: lacks_price_def load_items_def init_def offer_1_def offer_2_in_1_def
        unpriced_offer_def item_dict_def add_def Let_def truthy_def add_price_def)

text \<open>
  Claim C8, amended. Bulk upsert is not atomic. When the item at position \<open>k\<close> of a batch
  is the first offer without a price, and the upserts of the \<open>k - 1\<close> items before it
  complete, the request fails with ValidationFailed and leaves the tree and the ledger
  exactly as the first \<open>k - 1\<close> upserts made them (the state that \<open>add\<close> folded over these
  items gives): they stay applied, and neither the item \<open>k\<close> nor any later one is applied.
\<close>

theorem bulk_upsert_not_atomic:
  assumes "\<forall>x \<in> set xs. \<not> lacks_price x" and "lacks_price bad"
    and "fst (load_items t xs d) = Inr ()"
  shows "load_items t (xs @ bad # ys) d = (Inl ValidationFailed, snd (load_items t xs d))
       \<and> snd (load_items t xs d) = foldl (\<lambda>s x. snd (add s (item_dict x d))) t xs"
  using assms(2,3) load_items_loop_applied[of d xs t]
  by (auto simp: load_items_def load_items_loop_append lacks_price_def split: prod.splits sum.splits)

theorem bulk_upsert_not_atomic_witness:
  "\<not> lacks_price offer_1 \<and> lacks_price unpriced_offer
   \<and> fst (load_items init [offer_1] 1000) = Inr ()
   \<and> load_items init ([offer_1] @ unpriced_offer # [free_offer]) 1000 = (Inl ValidationFailed, tree_1)
   \<and> map_of (nodes tree_1) 1 \<noteq> None \<and> map_of (price_by_id tree_1) 1 = Some [(1000, 100)]
   \<and> map_of (nodes tree_1) 4 = None \<and> map_of (nodes tree_1) 3 = None"
proof -
  have a: "\<forall>x \<in> set [offer_1]. \<not> lacks_price x" by (simp add: lacks_price_def offer_1_def)
  have b: "lacks_price unpriced_offer" by (simp add: lacks_price_def unpriced_offer_def)
  have c: "fst (load_items init [offer_1] 1000) = Inr ()"
    by (simp add: load_items_def init_def offer_1_def item_dict_def add_def Let_def
        truthy_def add_price_def)
  from bulk_upsert_not_atomic[OF a b c, of "[free_offer]"]
  have d: "load_items init ([offer_1] @ unpriced_offer # [free_offer]) 1000
             = (Inl ValidationFailed, tree_1)"
    unfolding tree_1_def by (rule conjunct1)
  have e: "map_of (nodes tree_1) 1 \<noteq> None \<and> map_of (price_by_id tree_1) 1 = Some [(1000, 100)]
     \<and> map_of (nodes tree_1) 4 = None \<and> map_of (nodes tree_1) 3 = None"
    by (simp add: tree_1_eq)
  have a': "\<not> lacks_price offer_1" using a by simp
  show ?thesis using a' b c d e by blast
qed

text \<open>
  Claim C9. Upsert is not total. In a tree where offers carry the \<open>None\<close> children
  sentinel, upserting a node whose \<open>parent_id\<close> names an offer of the tree fails with
  \<open>TypeError\<close> (the membership test on \<open>None\<close>); so an upsert that completes had no
  \<open>parent_id\<close>, or one that names no node of the tree, or one that names a category.
\<close>

theorem upsert_under_offer_not_total:
  assumes "tree_shape t"
  shows "(parent_id node = Some p \<and> map_of (nodes t) p = Some pn \<and> node_type pn = OFFER
            \<longrightarrow> fst (add t node) = Inl TypeError)
       \<and> (fst (add t node) = Inr () \<longrightarrow>
            (case parent_id node of
               None \<Rightarrow> True
             | Some q \<Rightarrow> (case map_of (nodes t) q of
                            None \<Rightarrow> True
                          | Some qn \<Rightarrow> node_type qn = CATEGORY)))"
proof -
  have a: "fst (add t node) = Inl TypeError"
    if "parent_id node = Some q" "map_of (nodes t) q = Some qn" "node_type qn = OFFER" for q qn
  proof -
    have "(q, qn) \<in> set (nodes t)" using that(2) by (rule map_of_SomeD)
    then have "children qn = None" using assms that(3) by (auto simp: tree_shape_def)
    then show ?thesis using that add_offer_parent_fails by blast
  qed
  have b: "node_type qn = CATEGORY" if "node_type qn \<noteq> OFFER" for qn :: node
    using that by (cases "node_type qn") auto
  show ?thesis
  proof (intro conjI impI)
    assume "parent_id node = Some p \<and> map_of (nodes t) p = Some pn \<and> node_type pn = OFFER"
    then show "fst (add t node) = Inl TypeError" using a by blast
  next
    assume ok: "fst (add t node) = Inr ()"
    show "case parent_id node of
               None \<Rightarrow> True
             | Some q \<Rightarrow> (case map_of (nodes t) q of
                            None \<Rightarrow> True
                          | Some qn \<Rightarrow> node_type qn = CATEGORY)"
    proof (cases "parent_id node")
      case None
      then show ?thesis by simp
    next
      case q: (Some q)
      show ?thesis
      proof (cases "map_of (nodes t) q")
        case None
        then show ?thesis using q by simp
      next
        case (Some qn)
        have "node_type qn \<noteq> OFFER"
        proof
          assume "node_type qn = OFFER"
          from a[OF q Some this] ok show False by simp
        qed
        then show ?thesis using b q Some by simp
      qed
    qed
  qed
qed

theorem upsert_under_offer_not_total_witness:
  "tree_shape tree_1 \<and> parent_id (item_dict offer_2_in_1 2000) = Some 1
   \<and> (\<exists>pn. map_of (nodes tree_1) 1 = Some pn \<and> node_type pn = OFFER)
   \<and> fst (add tree_1 (item_dict offer_2_in_1 2000)) = Inl TypeError
   \<and> fst (add tree_1 (item_dict free_offer 2000)) = Inr ()
   \<and> parent_id (item_dict free_offer 2000) = None"
proof -
  have s: "tree_shape tree_1" by (simp add: tree_shape_def tree_1_eq)
  have "fst (add tree_1 (item_dict free_offer 2000)) = Inr ()"
    by (simp add: tree_1_eq free_offer_def item_dict_def add_def Let_def truthy_def)
  then show ?thesis
    using upsert_under_offer_not_total[OF s, of "item_dict offer_2_in_1 2000" 1
        "\<lparr>node_id = 1, name = ''o1'', parent_id = None, node_type = OFFER,
                              price = Some 100, date = 1000, children = None\<rparr>"]
      upsert_under_offer_not_total[OF s, of "item_dict free_offer 2000"] s
    by (simp add: tree_1_eq item_dict_def offer_2_in_1_def free_offer_def)
qed

lemma skeleton_node_type:
  "skeleton t k = Some m \<Longrightarrow> \<exists>n. map_of (nodes t) k = Some n \<and> node_type n = node_type m
      \<and> name n = name m \<and> parent_id n = parent_id m \<and> price n = price m \<and> date n = date m
      \<and> node_id n = node_id m"
  by (auto simp: skeleton_def)

lemma load_items_single:
  "\<not> lacks_price item \<Longrightarrow> load_items t [item] d = add t (item_dict item d)"
  using add_error[of t "item_dict item d"]
  by (cases "add t (item_dict item d)") (auto simp: load_items_def lacks_price_def split: sum.splits)

text \<open>
  Claim C10. The ledger is appended on the truth value of the price, not on its presence.
  An offer with price 0 and no earlier history passes the validation of the bulk upsert
  (the request is exactly the upsert of the node, never ValidationFailed, and it succeeds
  when the offer has no parent), no observation is appended to the ledger, and a later
  statistics request on the offer, with any bounds that are in order, raises \<open>KeyError\<close>
  instead of returning an empty history.
\<close>

theorem zero_price_offer_has_no_history:
  assumes "unit_type item = OFFER" and "unit_price item = Some 0"
    and "map_of (price_by_id t) (unit_id item) = None" and "\<not> inverted start_date end_date"
  shows "load_items t [item] d = add t (item_dict item d)
       \<and> fst (load_items t [item] d) \<noteq> Inl ValidationFailed
       \<and> (unit_parent_id item = None \<longrightarrow> fst (load_items t [item] d) = Inr ())
       \<and> price_by_id (snd (load_items t [item] d)) = price_by_id t
       \<and> fst (api_get_statistic_by_id depth (snd (load_items t [item] d)) (unit_id item)
                 start_date end_date) = Inl KeyError"
proof -
  let ?node = "item_dict item d"
  let ?t' = "snd (add t ?node)"
  have l: "load_items t [item] d = add t ?node"
    using assms(2) by (intro load_items_single) (simp add: lacks_price_def)
  have v: "fst (add t ?node) \<noteq> Inl ValidationFailed" using add_error[of t ?node] by auto
  have ok: "fst (add t ?node) = Inr ()" if "unit_parent_id item = None"
    using that assms(1,2)
    by (simp add: add_unfold record_price_def link_parent_def item_dict_def truthy_def)
  have p: "price_by_id ?t' = price_by_id t"
    using assms(2) by (simp add: add_price_by_id item_dict_def)
  have "skeleton ?t' (unit_id item) = Some (?node\<lparr>children := None\<rparr>)"
    by (simp add: add_skeleton item_dict_def)
  from skeleton_node_type[OF this] obtain n where
    n: "map_of (nodes ?t') (unit_id item) = Some n" "node_type n = OFFER"
    using assms(1) by (auto simp: item_dict_def)
  have "fst (api_get_statistic_by_id depth ?t' (unit_id item) start_date end_date) = Inl KeyError"
    using n p assms(3,4)
    by (simp add: api_get_statistic_by_id_def get_statistic_by_id_def inverted_def)
  then show ?thesis using l v ok p by simp
qed

theorem zero_price_offer_has_no_history_witness:
  "unit_type free_offer = OFFER \<and> unit_price free_offer = Some 0
   \<and> map_of (price_by_id init) (unit_id free_offer) = None \<and> \<not> inverted None None
   \<and> fst (load_items init [free_offer] 1000) = Inr ()
   \<and> price_by_id (snd (load_items init [free_offer] 1000)) = []
   \<and> fst (api_get_statistic_by_id 1000 (snd (load_items init [free_offer] 1000)) 3 None None)
        = Inl KeyError"
proof -
  have a: "unit_type free_offer = OFFER" "unit_price free_offer = Some 0"
    "map_of (price_by_id init) (unit_id free_offer) = None" "\<not> inverted None None"
    "unit_parent_id free_offer = None" "unit_id free_offer = 3" "price_by_id init = []"
    by (simp_all add: free_offer_def init_def inverted_def)
  note th = zero_price_offer_has_no_history[OF a(1-4), of 1000 1000, unfolded a(6) a(7)]
  show ?thesis using th a(1-5) by blast
qed

section \<open>Statistics of an offer\<close>

lemma select_date_interval:
  "select_date s e d = (if in_closed_interval s e d then Some d else None)"
  by (cases s; cases e) (auto simp: select_date_def in_closed_interval_def)

lemma statistic_loop_filter:
  "statistic_loop n i s e h =
     map (\<lambda>(d, p). \<lparr>result_id = i, result_name = name n, result_date = d,
                     result_parentId = parent_id n, result_price = Some p,
                     result_type = node_type n\<rparr>)
         (filter (\<lambda>(d, p). in_closed_interval s e d) h)"
  by (induction h) (auto simp: select_date_interval)

lemma observation_statistic_loop:
  "map observation (statistic_loop n i s e h) =
     map (\<lambda>(d, p). (d, Some p)) (filter (\<lambda>(d, p). in_closed_interval s e d) h)"
  by (induction h) (auto simp: select_date_interval observation_def)

lemma date_statistic_loop:
  "map result_date (statistic_loop n i s e h) =
     map fst (filter (\<lambda>(d, p). in_closed_interval s e d) h)"
  by (induction h) (auto simp: select_date_interval)

lemma tree_2_eq:
  "tree_2 = \<lparr>nodes = [(1, \<lparr>node_id = 1, name = ''o1'', parent_id = None, node_type = OFFER,
                              price = Some 300, date = 500, children = None\<rparr>)],
             price_by_id = [(1, [(1000, 100), (500, 300)])]\<rparr>"
  by (simp add: tree_2_def tree_1_eq load_items_def offer_1_repriced_def item_dict_def add_def Let_def
        truthy_def add_price_def)

text \<open>
  Claim C3. For an offer of the tree that has a history in the ledger, the statistics
  query returns a list whose entries report exactly the observations of the ledger with
  a timestamp in the closed interval from \<open>start\<close> to \<open>end\<close> (as multisets: one entry for
  each such observation, equal timestamps included; an absent bound does not restrict,
  so without bounds the whole history is returned), in ascending order of the timestamps,
  each entry carrying the identity of the offer. The request handler returns the same
  whenever the bounds are not inverted.
\<close>

theorem offer_statistics_closed_interval:
  assumes "map_of (nodes t) i = Some n" and "node_type n = OFFER"
    and "map_of (price_by_id t) i = Some h"
  shows "\<exists>items t'. get_statistic_by_id depth t i start_date end_date = (Inr items, t')
       \<and> mset (map observation items) =
           image_mset (\<lambda>(d, p). (d, Some p))
             (filter_mset (\<lambda>(d, p). in_closed_interval start_date end_date d) (mset h))
       \<and> sorted (map result_date items)
       \<and> (\<forall>r \<in> set items. result_id r = i \<and> result_name r = name n
              \<and> result_parentId r = parent_id n \<and> result_type r = OFFER)
       \<and> (start_date = None \<and> end_date = None \<longrightarrow>
              map observation items = map (\<lambda>(d, p). (d, Some p)) (sort_key fst h))
       \<and> (\<not> inverted start_date end_date \<longrightarrow>
              api_get_statistic_by_id depth t i start_date end_date = (Inr items, t'))"
proof -
  let ?items = "statistic_loop n i start_date end_date (sort_ascending h)"
  let ?t' = "t\<lparr>price_by_id := AList.update i (sort_ascending h) (price_by_id t)\<rparr>"
  have r: "get_statistic_by_id depth t i start_date end_date = (Inr ?items, ?t')"
    using assms by (simp add: get_statistic_by_id_def)
  have m: "mset (map observation ?items) =
           image_mset (\<lambda>(d, p). (d, Some p))
             (filter_mset (\<lambda>(d, p). in_closed_interval start_date end_date d) (mset h))"
    unfolding observation_statistic_loop sort_ascending_def by simp
  have s: "sorted (map result_date ?items)"
    unfolding date_statistic_loop sort_ascending_def
    by (rule sorted_filter) simp
  have f: "\<forall>r \<in> set ?items. result_id r = i \<and> result_name r = name n
              \<and> result_parentId r = parent_id n \<and> result_type r = OFFER"
    using assms(2) by (auto simp: statistic_loop_filter)
  have a: "map observation ?items = map (\<lambda>(d, p). (d, Some p)) (sort_key fst h)"
    if "start_date = None \<and> end_date = None"
    using that
    by (simp add: observation_statistic_loop sort_ascending_def in_closed_interval_def)
  have h: "api_get_statistic_by_id depth t i start_date end_date = (Inr ?items, ?t')"
    if "\<not> inverted start_date end_date"
    using that assms(1) r by (simp add: api_get_statistic_by_id_def inverted_def)
  show ?thesis using r m s f a h by blast
qed

theorem offer_statistics_closed_interval_witness:
  "(\<exists>n. map_of (nodes tree_2) 1 = Some n \<and> node_type n = OFFER)
   \<and> map_of (price_by_id tree_2) 1 = Some [(1000, 100), (500, 300)]
   \<and> \<not> inverted (Some 500) (Some 1000)
   \<and> (\<exists>items t'. api_get_statistic_by_id 1000 tree_2 1 (Some 500) (Some 1000) = (Inr items, t')
         \<and> map observation items = [(500, Some 300), (1000, Some 100)]
         \<and> sorted (map result_date items))"
proof -
  let ?n = "\<lparr>node_id = 1, name = ''o1'', parent_id = None, node_type = OFFER,
             price = Some 300, date = 500, children = None\<rparr>"
  have a: "map_of (nodes tree_2) 1 = Some ?n" "node_type ?n = OFFER"
    "map_of (price_by_id tree_2) 1 = Some [(1000, 100), (500, 300)]"
    by (simp_all add: tree_2_eq)
  have b: "\<not> inverted (Some 500) (Some 1000)" by (simp add: inverted_def)
  from offer_statistics_closed_interval[OF a, of 1000 "Some 500" "Some 1000"] b
  obtain items t' where
    c: "get_statistic_by_id 1000 tree_2 1 (Some 500) (Some 1000) = (Inr items, t')"
      "sorted (map result_date items)"
      "api_get_statistic_by_id 1000 tree_2 1 (Some 500) (Some 1000) = (Inr items, t')"
    by blast
  have "fst (get_statistic_by_id 1000 tree_2 1 (Some 500) (Some 1000)) =
      Inr (statistic_loop ?n 1 (Some 500) (Some 1000) [(500, 300), (1000, 100)])"
    by (simp add: get_statistic_by_id_def tree_2_eq sort_ascending_def)
  then have o: "map observation items = [(500, Some 300), (1000, Some 100)]"
    using c(1) by (simp add: observation_def select_date_def)
  have e: "\<exists>items t'. api_get_statistic_by_id 1000 tree_2 1 (Some 500) (Some 1000) = (Inr items, t')
         \<and> map observation items = [(500, Some 300), (1000, Some 100)]
         \<and> sorted (map result_date items)"
    by (intro exI conjI) (rule c(3), rule o, rule c(2))
  have n: "\<exists>n. map_of (nodes tree_2) 1 = Some n \<and> node_type n = OFFER"
    using a(1,2) by blast
  show ?thesis using n a(3) b e by (intro conjI)
qed

section \<open>Recent sales\<close>

lemma sale_of_frame:
  "i \<noteq> j \<Longrightarrow>
   sale_of (t\<lparr>price_by_id := AList.update i h (price_by_id t)\<rparr>) d j = sale_of t d j"
  by (simp add: sale_of_def map_of_update_if cong: option.case_cong)

lemma sales_loop_concat:
  assumes "distinct ids"
    and "\<forall>i \<in> set ids. \<exists>h. map_of (price_by_id t) i = Some h
            \<and> ((\<exists>ob \<in> set h. qualifies d ob) \<longrightarrow> map_of (nodes t) i \<noteq> None)"
  shows "\<exists>t'. sales_loop d ids t acc = (Inr (acc @ concat (map (sale_of t d) ids)), t')"
  using assms
proof (induction ids arbitrary: t acc)
  case Nil
  then show ?case by simp
next
  case (Cons i ids)
  from Cons.prems obtain h where h: "map_of (price_by_id t) i = Some h"
    and q: "(\<exists>ob \<in> set h. qualifies d ob) \<longrightarrow> map_of (nodes t) i \<noteq> None" by auto
  let ?t1 = "t\<lparr>price_by_id := AList.update i (sort_descending h) (price_by_id t)\<rparr>"
  have frame: "map (sale_of ?t1 d) ids = map (sale_of t d) ids"
    using Cons.prems(1) by (intro map_cong refl sale_of_frame) auto
  have pre: "\<forall>j \<in> set ids. \<exists>h. map_of (price_by_id ?t1) j = Some h
            \<and> ((\<exists>ob \<in> set h. qualifies d ob) \<longrightarrow> map_of (nodes ?t1) j \<noteq> None)"
    using Cons.prems by (auto simp: map_of_update_if)
  have dist: "distinct ids" using Cons.prems(1) by simp
  note ih = Cons.IH[OF dist pre]
  show ?case
  proof (cases "find (qualifies d) (sort_descending h)")
    case None
    then have "sale_of t d i = []" using h by (simp add: sale_of_def)
    moreover have "sales_loop d (i # ids) t acc = sales_loop d ids ?t1 acc"
      using h None by (simp add: qualifies_def)
    ultimately show ?thesis using ih[of acc] frame by simp
  next
    case (Some ob)
    obtain nd np where ob: "ob = (nd, np)" by (cases ob)
    have "ob \<in> set (sort_descending h)" "qualifies d ob"
      using Some by (auto simp: find_Some_iff)
    then have "\<exists>ob \<in> set h. qualifies d ob" by (auto simp: sort_descending_def)
    with q obtain node where node: "map_of (nodes t) i = Some node" by auto
    let ?r = "\<lparr>sale_id = node_id node, sale_name = name node,
                      sale_date = convert_date nd, sale_parentId = parent_id node,
                      sale_price = np, sale_type = type_value (node_type node)\<rparr>"
    have "sale_of t d i = [?r]" using h Some ob node by (simp add: sale_of_def)
    moreover have "sales_loop d (i # ids) t acc = sales_loop d ids ?t1 (acc @ [?r])"
      using h Some ob node by (simp add: qualifies_def)
    ultimately show ?thesis using ih[of "acc @ [?r]"] frame by simp
  qed
qed

lemma find_most_recent:
  "sorted (rev (map fst xs)) \<Longrightarrow> find P xs = Some x \<Longrightarrow>
   x \<in> set xs \<and> P x \<and> (\<forall>y \<in> set xs. P y \<longrightarrow> fst y \<le> fst x)"
proof (induction xs)
  case Nil
  then show ?case by simp
next
  case (Cons a xs)
  then show ?case
    by (auto simp: sorted_append split: if_splits)
qed

lemma sorted_sort_descending: "sorted (rev (map fst (sort_descending h)))"
  by (simp add: sort_descending_def rev_map)

lemma set_sort_descending [simp]: "set (sort_descending h) = set h"
  by (simp add: sort_descending_def)

lemma days_le_1: "days (d - node_date) \<le> 1 \<longleftrightarrow> d - node_date < 2 * 86400000000"
  unfolding days_def by linarith

lemma sale_of_cases:
  assumes "ledger_in_tree t d" and "map_of (price_by_id t) i = Some h"
  shows "(\<not> (\<exists>ob \<in> set h. qualifies d ob) \<and> sale_of t d i = [])
       \<or> ((\<exists>ob \<in> set h. qualifies d ob)
          \<and> (\<exists>r nd. sale_of t d i = [r] \<and> sale_id r = i \<and> sale_date r = convert_date nd
                 \<and> (nd, sale_price r) \<in> set h \<and> qualifies d (nd, sale_price r)
                 \<and> (\<forall>ob \<in> set h. qualifies d ob \<longrightarrow> fst ob \<le> nd)))"
proof (cases "find (qualifies d) (sort_descending h)")
  case None
  then have "\<not> (\<exists>ob \<in> set h. qualifies d ob)" by (auto simp: find_None_iff)
  moreover have "sale_of t d i = []" using None assms(2) by (simp add: sale_of_def)
  ultimately show ?thesis by blast
next
  case (Some ob)
  obtain nd np where ob: "ob = (nd, np)" by (cases ob)
  from find_most_recent[OF sorted_sort_descending Some]
  have m: "(nd, np) \<in> set h" "qualifies d (nd, np)" "\<forall>y \<in> set h. qualifies d y \<longrightarrow> fst y \<le> nd"
    using ob by auto
  have "(i, h) \<in> set (price_by_id t)" using assms(2) by (rule map_of_SomeD)
  with assms(1) m(1,2) obtain node where node: "map_of (nodes t) i = Some node" "node_id node = i"
    by (fastforce simp: ledger_in_tree_def split: option.splits)
  let ?r = "\<lparr>sale_id = node_id node, sale_name = name node,
                      sale_date = convert_date nd, sale_parentId = parent_id node,
                      sale_price = np, sale_type = type_value (node_type node)\<rparr>"
  have "sale_of t d i = [?r]" using assms(2) Some ob node by (simp add: sale_of_def)
  then have "\<exists>r nd. sale_of t d i = [r] \<and> sale_id r = i \<and> sale_date r = convert_date nd
                 \<and> (nd, sale_price r) \<in> set h \<and> qualifies d (nd, sale_price r)
                 \<and> (\<forall>ob \<in> set h. qualifies d ob \<longrightarrow> fst ob \<le> nd)"
    using m node(2) by (intro exI[of _ ?r] exI[of _ nd]) simp
  then show ?thesis using m(1,2) by blast
qed

lemma sales_ids:
  assumes "ledger_in_tree t d" and "\<forall>k \<in> set ks. map_of (price_by_id t) k \<noteq> None"
  shows "map sale_id (concat (map (sale_of t d) ks)) =
           filter (\<lambda>k. \<exists>h. map_of (price_by_id t) k = Some h \<and> (\<exists>ob \<in> set h. qualifies d ob)) ks"
  using assms(2)
proof (induction ks)
  case Nil
  then show ?case by simp
next
  case (Cons k ks)
  then obtain h where h: "map_of (price_by_id t) k = Some h" by auto
  from sale_of_cases[OF assms(1) h] Cons h show ?case by auto
qed

lemma sales_entries:
  assumes "ledger_in_tree t d" and "r \<in> set (concat (map (sale_of t d) ks))"
  shows "\<exists>h nd. map_of (price_by_id t) (sale_id r) = Some h \<and> sale_date r = convert_date nd
           \<and> (nd, sale_price r) \<in> set h \<and> qualifies d (nd, sale_price r)
           \<and> (\<forall>ob \<in> set h. qualifies d ob \<longrightarrow> fst ob \<le> nd)"
proof -
  from assms(2) obtain k where k: "r \<in> set (sale_of t d k)" by auto
  then obtain h where h: "map_of (price_by_id t) k = Some h"
    by (cases "map_of (price_by_id t) k") (auto simp: sale_of_def)
  from sale_of_cases[OF assms(1) h] k show ?thesis using h by auto
qed

text \<open>
  What the sales query returns when the ledger is consistent with the tree, that is,
  when every offer with a qualifying observation is in the tree: a list with at most one
  entry for an offer; an offer has an entry exactly when it has a history with an
  observation whose day difference from \<open>asOf\<close> is at most 1; the entry reports, as
  text, an observation of the offer that qualifies and whose timestamp is the latest
  among those that qualify. The day difference is at most 1 exactly when less than 48
  hours have elapsed.
\<close>

lemma sales_of_consistent_ledger:
  assumes "ledger_in_tree t asOf"
  shows "\<exists>items t'. get_sales t asOf = (Inr items, t')
       \<and> distinct (map sale_id items)
       \<and> (\<forall>i. i \<in> sale_id ` set items \<longleftrightarrow>
                (\<exists>h. map_of (price_by_id t) i = Some h \<and> (\<exists>ob \<in> set h. qualifies asOf ob)))
       \<and> (\<forall>r \<in> set items. \<exists>h nd.
              map_of (price_by_id t) (sale_id r) = Some h \<and> sale_date r = convert_date nd
              \<and> (nd, sale_price r) \<in> set h \<and> qualifies asOf (nd, sale_price r)
              \<and> (\<forall>ob \<in> set h. qualifies asOf ob \<longrightarrow> fst ob \<le> nd))
       \<and> (\<forall>node_date p. qualifies asOf (node_date, p) \<longleftrightarrow>
              asOf - node_date < 48 * 3600 * 1000000)"
proof -
  let ?ids = "map fst (price_by_id t)"
  let ?items = "concat (map (sale_of t asOf) ?ids)"
  let ?has = "\<lambda>k. \<exists>h. map_of (price_by_id t) k = Some h \<and> (\<exists>ob \<in> set h. qualifies asOf ob)"
  have dist: "distinct ?ids" using assms by (simp add: ledger_in_tree_def)
  have dom: "\<forall>k \<in> set ?ids. map_of (price_by_id t) k \<noteq> None"
    by (auto simp: map_of_eq_None_iff)
  have pre: "\<forall>i \<in> set ?ids. \<exists>h. map_of (price_by_id t) i = Some h
            \<and> ((\<exists>ob \<in> set h. qualifies asOf ob) \<longrightarrow> map_of (nodes t) i \<noteq> None)"
  proof
    fix i assume "i \<in> set ?ids"
    with dom obtain h where h: "map_of (price_by_id t) i = Some h" by auto
    then have "(i, h) \<in> set (price_by_id t)" by (rule map_of_SomeD)
    with assms have "(\<exists>ob \<in> set h. qualifies asOf ob) \<longrightarrow> map_of (nodes t) i \<noteq> None"
      by (fastforce simp: ledger_in_tree_def split: option.splits)
    with h show "\<exists>h. map_of (price_by_id t) i = Some h
            \<and> ((\<exists>ob \<in> set h. qualifies asOf ob) \<longrightarrow> map_of (nodes t) i \<noteq> None)" by blast
  qed
  from sales_loop_concat[OF dist pre, of "[]"] obtain t' where
    r: "get_sales t asOf = (Inr ?items, t')" by (auto simp: get_sales_def)
  have ids: "map sale_id ?items = filter ?has ?ids" by (rule sales_ids[OF assms dom])
  have d: "distinct (map sale_id ?items)" unfolding ids using dist by simp
  have m: "\<forall>i. i \<in> sale_id ` set ?items \<longleftrightarrow> ?has i"
  proof
    fix i
    have "sale_id ` set ?items = set (map sale_id ?items)" by simp
    also have "\<dots> = {k \<in> set ?ids. ?has k}" unfolding ids by simp
    finally show "i \<in> sale_id ` set ?items \<longleftrightarrow> ?has i"
      using dom by (auto simp: map_of_eq_None_iff dest: map_of_SomeD intro: rev_image_eqI)
  qed
  have e: "\<forall>r \<in> set ?items. \<exists>h nd.
              map_of (price_by_id t) (sale_id r) = Some h \<and> sale_date r = convert_date nd
              \<and> (nd, sale_price r) \<in> set h \<and> qualifies asOf (nd, sale_price r)
              \<and> (\<forall>ob \<in> set h. qualifies asOf ob \<longrightarrow> fst ob \<le> nd)"
    using sales_entries[OF assms] by blast
  have w: "\<forall>node_date p. qualifies asOf (node_date, p) \<longleftrightarrow>
              asOf - node_date < 48 * 3600 * 1000000"
    by (simp add: qualifies_def days_le_1)
  show ?thesis using r d m e w by blast
qed

lemma convert_date_1000: "convert_date 1000 = ''1970-01-01T00:00:00Z''"
  by code_simp

lemma tree_8_eq:
  "tree_8 = \<lparr>nodes = [(1, \<lparr>node_id = 1, name = ''o1'', parent_id = None, node_type = OFFER,
                              price = Some 100, date = 1000, children = None\<rparr>),
                       (9, \<lparr>node_id = 9, name = ''o9'', parent_id = None, node_type = OFFER,
                              price = Some 70, date = 1000, children = None\<rparr>)],
             price_by_id = [(1, [(1000, 100)]), (9, [(1000, 70)])]\<rparr>"
  by (simp add: tree_8_def load_items_def init_def offer_1_def offer_9_def item_dict_def add_def
        Let_def truthy_def add_price_def)

text \<open>
  Claim C4 fails on the code. The offers 1 and 9 are priced at time 1000, and the sales
  query at that time lists both, one entry each. After the offer 1 is deleted its history
  is still in the ledger (the defect of claim C1), so the same query reaches
  \<open>self.nodes[id]\<close> for the deleted offer and raises \<open>KeyError\<close>: no list is returned,
  although the offer 9 has an observation that qualifies.
\<close>

theorem sales_after_delete_raise:
  "fst (get_sales tree_8 1000) =
     Inr [\<lparr>sale_id = 1, sale_name = ''o1'', sale_date = ''1970-01-01T00:00:00Z'',
           sale_parentId = None, sale_price = 100, sale_type = ''OFFER''\<rparr>,
          \<lparr>sale_id = 9, sale_name = ''o9'', sale_date = ''1970-01-01T00:00:00Z'',
           sale_parentId = None, sale_price = 70, sale_type = ''OFFER''\<rparr>]
   \<and> fst (delete_item_by_id tree_8 True 1) = Inr (Some 200)
   \<and> map_of (nodes (snd (delete_item_by_id tree_8 True 1))) 9 = map_of (nodes tree_8) 9
   \<and> map_of (price_by_id (snd (delete_item_by_id tree_8 True 1))) 9 = Some [(1000, 70)]
   \<and> qualifies 1000 (1000, 70)
   \<and> fst (get_sales (snd (delete_item_by_id tree_8 True 1)) 1000) = Inl KeyError"
proof -
  have a: "fst (get_sales tree_8 1000) =
     Inr [\<lparr>sale_id = 1, sale_name = ''o1'', sale_date = ''1970-01-01T00:00:00Z'',
           sale_parentId = None, sale_price = 100, sale_type = ''OFFER''\<rparr>,
          \<lparr>sale_id = 9, sale_name = ''o9'', sale_date = ''1970-01-01T00:00:00Z'',
           sale_parentId = None, sale_price = 70, sale_type = ''OFFER''\<rparr>]"
    by (simp add: get_sales_def tree_8_eq sort_descending_def days_def convert_date_1000)
  have d: "delete_item_by_id tree_8 True 1 =
     (Inr (Some 200),
      \<lparr>nodes = [(9, \<lparr>node_id = 9, name = ''o9'', parent_id = None, node_type = OFFER,
                              price = Some 70, date = 1000, children = None\<rparr>)],
       price_by_id = [(1, [(1000, 100)]), (9, [(1000, 70)])]\<rparr>)"
    by (simp add: delete_item_by_id_def delete_node_by_id_def tree_8_eq node_keys_def)
  have q: "qualifies 1000 (1000, 70)" by (simp add: qualifies_def days_def)
  have g: "fst (get_sales
      \<lparr>nodes = [(9, \<lparr>node_id = 9, name = ''o9'', parent_id = None, node_type = OFFER,
                              price = Some 70, date = 1000, children = None\<rparr>)],
       price_by_id = [(1, [(1000, 100)]), (9, [(1000, 70)])]\<rparr> 1000) = Inl KeyError"
    by (simp add: get_sales_def sort_descending_def days_def)
  have n: "map_of (nodes (snd (delete_item_by_id tree_8 True 1))) 9 = map_of (nodes tree_8) 9"
    unfolding d by (simp add: tree_8_eq)
  have p: "map_of (price_by_id (snd (delete_item_by_id tree_8 True 1))) 9 = Some [(1000, 70)]"
    unfolding d by simp
  have r: "fst (delete_item_by_id tree_8 True 1) = Inr (Some 200)" unfolding d by simp
  have g': "fst (get_sales (snd (delete_item_by_id tree_8 True 1)) 1000) = Inl KeyError"
    unfolding d snd_conv by (rule g)
  show ?thesis by (intro conjI a r n p q g')
qed

section \<open>Deletion of a node\<close>

lemma tree_3_eq:
  "tree_3 =
     \<lparr>nodes = [(5, \<lparr>node_id = 5, name = ''c5'', parent_id = None, node_type = CATEGORY,
                     price = None, date = 1000, children = Some [6]\<rparr>),
               (6, \<lparr>node_id = 6, name = ''c6'', parent_id = Some 5, node_type = CATEGORY,
                     price = None, date = 1000, children = Some [7]\<rparr>),
               (7, \<lparr>node_id = 7, name = ''o7'', parent_id = Some 6, node_type = OFFER,
                     price = Some 40, date = 1000, children = None\<rparr>)],
      price_by_id = [(7, [(1000, 40)])]\<rparr>"
  by (simp add: tree_3_def load_items_def init_def category_5_def category_6_in_5_def
        offer_7_in_6_def item_dict_def add_def Let_def truthy_def add_price_def)

lemma delete_absent:
  "map_of (nodes t) j = None \<Longrightarrow> delete_node_by_id t j = (Inr None, t)"
  by (simp add: delete_node_by_id_def)

lemma delete_present:
  assumes "map_of (nodes t) i = Some n" and "parent_lists t i n"
  shows "delete_node_by_id t i =
           (Inr (Some (if parent_id n = Some i then without_child i n else n)),
            t\<lparr>nodes := AList.delete i
                 (case parent_id n of
                    None \<Rightarrow> nodes t
                  | Some p \<Rightarrow>
                      (case map_of (nodes t) p of
                         None \<Rightarrow> nodes t
                       | Some pn \<Rightarrow> AList.update p (without_child i pn) (nodes t)))\<rparr>)"
  using assms
  by (auto simp: delete_node_by_id_def parent_lists_def without_child_def map_of_update_if Let_def
           split: option.splits)

text \<open>
  What deletion does where it completes. For an identifier \<open>i\<close> of the tree whose parent,
  when it is in the tree, lists \<open>i\<close> among its children, \<open>delete_node_by_id\<close> returns the
  removed node (the stored node; when the node is its own parent, with \<open>i\<close> taken out of
  its \<open>children\<close>), after which \<open>i\<close> is absent, the ledger is untouched, the parent has
  lost the first occurrence of \<open>i\<close> in its \<open>children\<close> and is otherwise the same, and every
  other node, the descendants of a removed category included, is stored under its
  identifier exactly as before. Deleting an identifier that is absent returns \<open>None\<close> and
  changes nothing.
\<close>

lemma delete_is_shallow:
  assumes "map_of (nodes t) i = Some n" and "parent_lists t i n"
  shows "\<exists>removed t'. delete_node_by_id t i = (Inr (Some removed), t')
       \<and> removed = (if parent_id n = Some i then without_child i n else n)
       \<and> map_of (nodes t') i = None
       \<and> price_by_id t' = price_by_id t
       \<and> (\<forall>k. k \<noteq> i \<longrightarrow>
              map_of (nodes t') k =
                (if parent_id n = Some k then map_option (without_child i) (map_of (nodes t) k)
                 else map_of (nodes t) k))
       \<and> (\<forall>j. map_of (nodes t) j = None \<longrightarrow> delete_node_by_id t j = (Inr None, t))"
proof -
  let ?ns = "case parent_id n of
                    None \<Rightarrow> nodes t
                  | Some p \<Rightarrow>
                      (case map_of (nodes t) p of
                         None \<Rightarrow> nodes t
                       | Some pn \<Rightarrow> AList.update p (without_child i pn) (nodes t))"
  let ?t' = "t\<lparr>nodes := AList.delete i ?ns\<rparr>"
  have a: "map_of (nodes ?t') i = None" by (simp add: AList.delete_conv')
  have b: "map_of (nodes ?t') k =
                (if parent_id n = Some k then map_option (without_child i) (map_of (nodes t) k)
                 else map_of (nodes t) k)" if "k \<noteq> i" for k
    using that by (auto simp: AList.delete_conv' map_of_update_if split: option.splits)
  have c: "price_by_id ?t' = price_by_id t" by simp
  show ?thesis
    using delete_present[OF assms] a b c delete_absent by blast
qed

lemma delete_is_shallow_example:
  "(\<exists>n. map_of (nodes tree_3) 6 = Some n \<and> parent_lists tree_3 6 n \<and> parent_id n = Some 5)
   \<and> (\<exists>removed t'. delete_node_by_id tree_3 6 = (Inr (Some removed), t')
         \<and> node_id removed = 6 \<and> children removed = Some [7]
         \<and> map_of (nodes t') 6 = None
         \<and> map_of (nodes t') 7 = map_of (nodes tree_3) 7
         \<and> map_option children (map_of (nodes t') 5) = Some (Some []))
   \<and> map_of (nodes tree_3) 8 = None \<and> delete_node_by_id tree_3 8 = (Inr None, tree_3)"
proof -
  let ?n = "\<lparr>node_id = 6, name = ''c6'', parent_id = Some 5, node_type = CATEGORY,
                     price = None, date = 1000, children = Some [7]\<rparr>"
  have a: "map_of (nodes tree_3) 6 = Some ?n" "parent_lists tree_3 6 ?n"
    by (simp_all add: tree_3_eq parent_lists_def)
  have p: "parent_id ?n = Some 5" by simp
  have z: "map_of (nodes tree_3) 8 = None" by (simp add: tree_3_eq)
  from delete_is_shallow[OF a] obtain removed t' where
    r: "delete_node_by_id tree_3 6 = (Inr (Some removed), t')"
      "removed = (if parent_id ?n = Some 6 then without_child 6 ?n else ?n)"
      "map_of (nodes t') 6 = None"
      "\<forall>k. k \<noteq> 6 \<longrightarrow>
              map_of (nodes t') k =
                (if parent_id ?n = Some k then map_option (without_child 6) (map_of (nodes tree_3) k)
                 else map_of (nodes tree_3) k)"
      "\<forall>j. map_of (nodes tree_3) j = None \<longrightarrow> delete_node_by_id tree_3 j = (Inr None, tree_3)"
    by blast
  have r2: "node_id removed = 6" "children removed = Some [7]" using r(2) by simp_all
  have r7: "map_of (nodes t') 7 = map_of (nodes tree_3) 7" using r(4) by simp
  have r5: "map_option children (map_of (nodes t') 5) = Some (Some [])"
    using r(4) by (simp add: tree_3_eq without_child_def)
  have r8: "delete_node_by_id tree_3 8 = (Inr None, tree_3)" using r(5) z by blast
  have e1: "\<exists>n. map_of (nodes tree_3) 6 = Some n \<and> parent_lists tree_3 6 n \<and> parent_id n = Some 5"
    by (intro exI conjI) (rule a(1), rule a(2), rule p)
  have e2: "\<exists>removed t'. delete_node_by_id tree_3 6 = (Inr (Some removed), t')
         \<and> node_id removed = 6 \<and> children removed = Some [7]
         \<and> map_of (nodes t') 6 = None
         \<and> map_of (nodes t') 7 = map_of (nodes tree_3) 7
         \<and> map_option children (map_of (nodes t') 5) = Some (Some [])"
    by (intro exI conjI) (rule r(1), rule r2(1), rule r2(2), rule r(3), rule r7, rule r5)
  show ?thesis using e1 e2 z r8 by (intro conjI)
qed

lemma tree_4_eq:
  "tree_4 = \<lparr>nodes = [(2, \<lparr>node_id = 2, name = ''o2'', parent_id = Some 1, node_type = OFFER,
                              price = Some 50, date = 1000, children = None\<rparr>)],
             price_by_id = [(2, [(1000, 50)])]\<rparr>"
  by (simp add: tree_4_def load_items_def init_def offer_2_in_1_def item_dict_def add_def Let_def
        truthy_def add_price_def)

lemma tree_9_eq:
  "tree_9 = \<lparr>nodes = [(2, \<lparr>node_id = 2, name = ''o2'', parent_id = Some 1, node_type = OFFER,
                              price = Some 50, date = 1000, children = None\<rparr>),
                       (1, \<lparr>node_id = 1, name = ''o1'', parent_id = None, node_type = OFFER,
                              price = Some 100, date = 2000, children = None\<rparr>)],
             price_by_id = [(2, [(1000, 50)]), (1, [(2000, 100)])]\<rparr>"
  by (simp add: tree_9_def tree_4_eq load_items_def offer_1_def item_dict_def add_def Let_def
        truthy_def add_price_def)

lemma tree_10_eq:
  "tree_10 = \<lparr>nodes = [(2, \<lparr>node_id = 2, name = ''o2'', parent_id = Some 1, node_type = OFFER,
                              price = Some 50, date = 1000, children = None\<rparr>),
                        (1, \<lparr>node_id = 1, name = ''c1'', parent_id = None, node_type = CATEGORY,
                              price = Some 5, date = 2000, children = Some []\<rparr>)],
              price_by_id = [(2, [(1000, 50)]), (1, [(2000, 5)])]\<rparr>"
  by (simp add: tree_10_def tree_4_eq load_items_def priced_category_1_def item_dict_def add_def
        Let_def truthy_def add_price_def)

lemma tree_11_eq:
  "tree_11 =
     \<lparr>nodes = [(5, \<lparr>node_id = 5, name = ''c5'', parent_id = None, node_type = CATEGORY,
                     price = None, date = 1000, children = Some [6, 7]\<rparr>),
               (6, \<lparr>node_id = 6, name = ''c6'', parent_id = Some 5, node_type = CATEGORY,
                     price = None, date = 1000, children = Some [7]\<rparr>),
               (7, \<lparr>node_id = 7, name = ''o7'', parent_id = Some 6, node_type = OFFER,
                     price = Some 40, date = 2000, children = None\<rparr>)],
      price_by_id = [(7, [(1000, 40), (2000, 40)])]\<rparr>"
  by (simp add: tree_11_def load_items_def init_def category_5_def category_6_in_5_def
        offer_7_in_5_def offer_7_in_6_def item_dict_def add_def Let_def truthy_def add_price_def)

text \<open>
  Claim C6 fails on the code: deletion does not complete for every identifier of the tree,
  and it can leave another node that no longer can be viewed.
  \<^item> The offer 2 names the parent 1, and 1 is upserted afterwards as an offer; both
    upserts succeed. Deleting 2, which is in the tree, calls \<open>remove\<close> on the \<open>None\<close>
    children of 1 and raises \<open>AttributeError\<close>; nothing is removed or returned.
  \<^item> When 1 is upserted afterwards as a category with a price, 2 is not among its
    children, and deleting 2 raises \<open>ValueError\<close>.
  \<^item> The offer 7 is upserted under the category 5 and then again under the category 6.
    The view of 5 is computed (with the price 40). Deleting 7 succeeds and leaves the
    node 5 as it was, still listing 7; the view of 5 then raises \<open>KeyError\<close>.
\<close>

theorem delete_of_present_node_raises:
  "fst (load_items init [offer_2_in_1] 1000) = Inr ()
   \<and> fst (load_items tree_4 [offer_1] 2000) = Inr ()
   \<and> map_of (nodes tree_9) 2 \<noteq> None
   \<and> delete_node_by_id tree_9 2 = (Inl AttributeError, tree_9)
   \<and> delete_item_by_id tree_9 True 2 = (Inl AttributeError, tree_9)
   \<and> fst (load_items tree_4 [priced_category_1] 2000) = Inr ()
   \<and> map_of (nodes tree_10) 2 \<noteq> None
   \<and> delete_node_by_id tree_10 2 = (Inl ValueError, tree_10)
   \<and> map_sum id view_price (get_nodes_by_id 10 tree_11 5) = Inr (Some 40)
   \<and> fst (delete_item_by_id tree_11 True 7) = Inr (Some 200)
   \<and> map_of (nodes (snd (delete_item_by_id tree_11 True 7))) 5 = map_of (nodes tree_11) 5
   \<and> get_nodes_by_id 10 (snd (delete_item_by_id tree_11 True 7)) 5 = Inl KeyError"
proof -
  have l1: "fst (load_items init [offer_2_in_1] 1000) = Inr ()"
    by (simp add: load_items_def init_def offer_2_in_1_def item_dict_def add_def Let_def
          truthy_def add_price_def)
  have l2: "fst (load_items tree_4 [offer_1] 2000) = Inr ()"
    by (simp add: tree_4_eq load_items_def offer_1_def item_dict_def add_def Let_def
          truthy_def add_price_def)
  have l3: "fst (load_items tree_4 [priced_category_1] 2000) = Inr ()"
    by (simp add: tree_4_eq load_items_def priced_category_1_def item_dict_def add_def Let_def
          truthy_def add_price_def)
  have p9: "map_of (nodes tree_9) 2 \<noteq> None" by (simp add: tree_9_eq)
  have p10: "map_of (nodes tree_10) 2 \<noteq> None" by (simp add: tree_10_eq)
  have d9: "delete_node_by_id tree_9 2 = (Inl AttributeError, tree_9)"
    by (simp add: delete_node_by_id_def tree_9_eq)
  have h9: "delete_item_by_id tree_9 True 2 = (Inl AttributeError, tree_9)"
    by (simp add: delete_item_by_id_def delete_node_by_id_def tree_9_eq node_keys_def)
  have d10: "delete_node_by_id tree_10 2 = (Inl ValueError, tree_10)"
    by (simp add: delete_node_by_id_def tree_10_eq)
  have v: "map_sum id view_price (get_nodes_by_id 10 tree_11 5) = Inr (Some 40)"
    by (simp add: get_nodes_by_id_def tree_11_eq numeral_nat)
  have d11: "delete_item_by_id tree_11 True 7 =
     (Inr (Some 200),
      \<lparr>nodes = [(5, \<lparr>node_id = 5, name = ''c5'', parent_id = None, node_type = CATEGORY,
                     price = None, date = 1000, children = Some [6, 7]\<rparr>),
               (6, \<lparr>node_id = 6, name = ''c6'', parent_id = Some 5, node_type = CATEGORY,
                     price = None, date = 1000, children = Some []\<rparr>)],
      price_by_id = [(7, [(1000, 40), (2000, 40)])]\<rparr>)"
    by (simp add: delete_item_by_id_def delete_node_by_id_def tree_11_eq node_keys_def)
  have r11: "fst (delete_item_by_id tree_11 True 7) = Inr (Some 200)" unfolding d11 by simp
  have n11: "map_of (nodes (snd (delete_item_by_id tree_11 True 7))) 5 = map_of (nodes tree_11) 5"
    unfolding d11 by (simp add: tree_11_eq)
  have k: "get_nodes_by_id 10 (snd (delete_item_by_id tree_11 True 7)) 5 = Inl KeyError"
    unfolding d11 by (simp add: get_nodes_by_id_def numeral_nat)
  show ?thesis by (intro conjI l1 l2 p9 d9 h9 l3 p10 d10 v r11 n11 k)
qed

section \<open>Children lists have no duplicates\<close>

lemma set_update_subset: "set (AList.update k v al) \<subseteq> insert (k, v) (set al)"
  by (induction al) auto

lemma set_delete_subset: "set (AList.delete k al) \<subseteq> set al"
  by (auto simp: AList.delete_eq)

lemma children_distinct_lookup:
  "children_distinct t \<Longrightarrow> map_of (nodes t) k = Some n \<Longrightarrow> children n = Some cs \<Longrightarrow> distinct cs"
  by (auto simp: children_distinct_def dest!: map_of_SomeD)

lemma children_distinct_update:
  assumes "children_distinct t" and "case children m of None \<Rightarrow> True | Some cs \<Rightarrow> distinct cs"
  shows "children_distinct (t\<lparr>nodes := AList.update k m (nodes t)\<rparr>)"
  using assms set_update_subset[of k m "nodes t"]
  by (fastforce simp: children_distinct_def)

lemma children_distinct_delete:
  "children_distinct t \<Longrightarrow> children_distinct (t\<lparr>nodes := AList.delete k (nodes t)\<rparr>)"
  using set_delete_subset[of k "nodes t"] by (fastforce simp: children_distinct_def)

lemma children_distinct_init: "children_distinct init"
  by (simp add: children_distinct_def init_def)

lemma children_distinct_adopt:
  "children_distinct t \<Longrightarrow> children_distinct (snd (adopt i es t))"
proof (induction es arbitrary: t)
  case Nil
  then show ?case by simp
next
  case (Cons e es)
  obtain k ni where e: "e = (k, ni)" by (cases e)
  show ?case
  proof (cases "parent_id ni = Some i")
    case False
    then show ?thesis using Cons e by simp
  next
    case True
    show ?thesis
    proof (cases "map_of (nodes t) i")
      case None
      then show ?thesis using Cons.prems e True by simp
    next
      case (Some n)
      show ?thesis
      proof (cases "children n")
        case None
        then show ?thesis using Cons.prems e True Some by simp
      next
        case cs: (Some cs)
        have d: "distinct cs" using children_distinct_lookup[OF Cons.prems Some cs] .
        show ?thesis
        proof (cases "k \<in> set cs")
          case True
          then show ?thesis using Cons e \<open>parent_id ni = Some i\<close> Some cs by simp
        next
          case False
          have "children_distinct (t\<lparr>nodes := AList.update i (n\<lparr>children := Some (cs @ [k])\<rparr>) (nodes t)\<rparr>)"
            using d False by (intro children_distinct_update[OF Cons.prems]) simp
          from Cons.IH[OF this] show ?thesis
            using e \<open>parent_id ni = Some i\<close> Some cs False by simp
        qed
      qed
    qed
  qed
qed

lemma children_distinct_write_node:
  "children_distinct t \<Longrightarrow> children_distinct (write_node t node)"
  unfolding write_node_def
  by (rule children_distinct_update)
     (auto simp: children_written split: option.splits dest: children_distinct_lookup)

lemma children_distinct_nodes_eq:
  "nodes t' = nodes t \<Longrightarrow> children_distinct t' = children_distinct t"
  by (simp add: children_distinct_def)

lemma children_distinct_record_price:
  "children_distinct t1 \<Longrightarrow> children_distinct (snd (record_price t1 node))"
  by (auto simp: record_price_def children_distinct_adopt
           children_distinct_nodes_eq[of "add_price t1 i d p" t1 for i d p]
           split: option.splits)

lemma children_distinct_link_parent:
  "children_distinct t2 \<Longrightarrow> children_distinct (snd (link_parent t2 i parent))"
  by (auto simp: link_parent_def split: option.splits
           intro!: children_distinct_update dest: children_distinct_lookup)

lemma children_distinct_add:
  "children_distinct t \<Longrightarrow> children_distinct (snd (add t node))"
proof -
  assume a: "children_distinct t"
  obtain r t2 where b: "record_price (write_node t node) node = (r, t2)"
    by (cases "record_price (write_node t node) node")
  have c: "children_distinct t2"
    using children_distinct_record_price[OF children_distinct_write_node[OF a], of node node] b
    by simp
  then show ?thesis
    using b children_distinct_link_parent[OF c, of "node_id node" "parent_id node"]
    by (auto simp: add_unfold split: sum.splits)
qed

lemma children_distinct_delete_node:
  assumes "children_distinct t"
  shows "children_distinct (snd (delete_node_by_id t i))"
proof -
  have a: "children_distinct (t\<lparr>nodes := AList.delete i (nodes t)\<rparr>)"
    by (rule children_distinct_delete[OF assms])
  have c: "children_distinct
             (t\<lparr>nodes := AList.update p (pn\<lparr>children := Some (remove1 i cs)\<rparr>) (nodes t)\<rparr>)"
    if "map_of (nodes t) p = Some pn" "children pn = Some cs" for p pn cs
  proof -
    have "distinct (remove1 i cs)"
      using children_distinct_lookup[OF assms that] by simp
    then show ?thesis by (intro children_distinct_update[OF assms]) simp
  qed
  have b: "children_distinct
             (t\<lparr>nodes := AList.delete i (AList.update p (pn\<lparr>children := Some (remove1 i cs)\<rparr>) (nodes t))\<rparr>)"
    if "map_of (nodes t) p = Some pn" "children pn = Some cs" for p pn cs
    using children_distinct_delete[OF c[OF that], of i] by simp
  show ?thesis
    using assms a b c
    by (auto simp: delete_node_by_id_def Let_def split: option.splits)
qed

lemma distinct_count_list:
  "distinct xs \<Longrightarrow> count_list xs x = (if x \<in> set xs then 1 else 0)"
  by (induction xs) auto

lemma skeleton_parent:
  "skeleton t' = skeleton t \<Longrightarrow> map_of (nodes t') k = Some m \<Longrightarrow>
   \<exists>m0. map_of (nodes t) k = Some m0 \<and> parent_id m0 = parent_id m"
proof -
  assume a: "skeleton t' = skeleton t" "map_of (nodes t') k = Some m"
  have "skeleton t' k = Some (m\<lparr>children := None\<rparr>)" using a(2) by (simp add: skeleton_def)
  then have "skeleton t k = Some (m\<lparr>children := None\<rparr>)" using a(1) by simp
  from skeleton_node_type[OF this] show ?thesis by auto
qed

lemma link_parent_children_grow:
  assumes "link_parent t2 i parent = (r, t3)" and "map_of (nodes t2) j = Some c"
    and "children c = Some cs"
  shows "\<exists>c' cs'. map_of (nodes t3) j = Some c' \<and> children c' = Some cs' \<and> set cs \<subseteq> set cs'"
  using assms
  by (auto simp: link_parent_def map_of_update_if split: option.splits if_splits)

lemma add_success_steps:
  assumes "fst (add t node) = Inr ()"
  obtains t2 where "record_price (write_node t node) node = (Inr (), t2)"
    and "link_parent t2 (node_id node) (parent_id node) = (Inr (), snd (add t node))"
proof -
  obtain r t2 where a: "record_price (write_node t node) node = (r, t2)"
    by (cases "record_price (write_node t node) node")
  obtain r3 t3 where b: "link_parent t2 (node_id node) (parent_id node) = (r3, t3)"
    by (cases "link_parent t2 (node_id node) (parent_id node)")
  have "r = Inr ()" using assms a by (auto simp: add_unfold split: sum.splits)
  moreover have "r3 = Inr ()" "t3 = snd (add t node)"
    using assms a b by (auto simp: add_unfold split: sum.splits)
  ultimately show ?thesis using that a b by simp
qed

lemma upsert_links_once:
  assumes cd: "children_distinct t" and ok: "fst (add t node) = Inr ()"
    and p: "parent_id node = Some p" and pn: "map_of (nodes t) p = Some pn"
  shows "\<exists>pn' cs. map_of (nodes (snd (add t node))) p = Some pn' \<and> children pn' = Some cs
           \<and> count_list cs (node_id node) = 1"
proof -
  from add_success_steps[OF ok] obtain t2 where
    a: "record_price (write_node t node) node = (Inr (), t2)"
    and b: "link_parent t2 (node_id node) (parent_id node) = (Inr (), snd (add t node))"
    by blast
  have cd2: "children_distinct t2"
    using children_distinct_record_price[OF children_distinct_write_node[OF cd], of node node] a
    by simp
  have "skeleton t2 = skeleton (write_node t node)"
    using record_price_skeleton[of "write_node t node" node] a by simp
  then have "skeleton t2 p \<noteq> None"
    using pn by (simp add: skeleton_write_node) (simp add: skeleton_def)
  then obtain pn2 where pn2: "map_of (nodes t2) p = Some pn2" by (auto simp: skeleton_def)
  show ?thesis
  proof (cases "children pn2")
    case None
    then show ?thesis using b p pn2 by (simp add: link_parent_def)
  next
    case (Some cs)
    have d: "distinct cs" by (rule children_distinct_lookup[OF cd2 pn2 Some])
    show ?thesis
    proof (cases "node_id node \<in> set cs")
      case True
      then have "snd (add t node) = t2" using b p pn2 Some by (simp add: link_parent_def)
      then show ?thesis using pn2 Some True d by (simp add: distinct_count_list)
    next
      case False
      then have "snd (add t node) =
          t2\<lparr>nodes := AList.update p (pn2\<lparr>children := Some (cs @ [node_id node])\<rparr>) (nodes t2)\<rparr>"
        using b p pn2 Some by (simp add: link_parent_def)
      then show ?thesis using False by (simp add: map_of_update_if)
    qed
  qed
qed

lemma upsert_category_adopts:
  assumes ok: "fst (add t node) = Inr ()" and cat: "node_type node = CATEGORY"
    and np: "\<not> truthy (price node)"
    and k: "map_of (nodes (snd (add t node))) k = Some m" "parent_id m = Some (node_id node)"
  shows "\<exists>c cs. map_of (nodes (snd (add t node))) (node_id node) = Some c
           \<and> children c = Some cs \<and> k \<in> set cs"
proof -
  let ?i = "node_id node"
  let ?t1 = "write_node t node"
  from add_success_steps[OF ok] obtain t2 where
    a: "record_price ?t1 node = (Inr (), t2)"
    and b: "link_parent t2 ?i (parent_id node) = (Inr (), snd (add t node))"
    by blast
  have ad: "adopt ?i (nodes ?t1) ?t1 = (Inr (), t2)"
    using a cat np by (simp add: record_price_def)
  have n1: "map_of (nodes ?t1) ?i = Some (written t node)" by (simp add: map_of_write_node)
  have "skeleton (snd (add t node)) = skeleton ?t1"
    using link_parent_frame[OF b] record_price_skeleton[of ?t1 node] a by simp
  from skeleton_parent[OF this k(1)] k(2) obtain m1 where
    m1: "map_of (nodes ?t1) k = Some m1" "parent_id m1 = Some ?i" by auto
  then have e: "(k, m1) \<in> set (nodes ?t1)" by (auto dest: map_of_SomeD)
  obtain cs0 where cs0: "children (written t node) = Some cs0"
  proof (cases "children (written t node)")
    case None
    have "\<exists>(k, ni) \<in> set (nodes ?t1). parent_id ni = Some ?i"
      using e m1(2) by (auto intro!: bexI[of _ "(k, m1)"])
    then have "adopt ?i (nodes ?t1) ?t1 = (Inl TypeError, ?t1)"
      using adopt_None[OF n1 None, of "nodes ?t1"] by simp
    then show ?thesis using ad by simp
  next
    case (Some cs0)
    then show ?thesis using that by blast
  qed
  from adopt_Some[OF n1 cs0, of "nodes ?t1"] ad obtain cs' where
    t2: "t2 = ?t1\<lparr>nodes := AList.update ?i ((written t node)\<lparr>children := Some cs'\<rparr>) (nodes ?t1)\<rparr>"
    and s: "set cs' = set cs0 \<union> {k. \<exists>ni. (k, ni) \<in> set (nodes ?t1) \<and> parent_id ni = Some ?i}"
    by auto
  have "k \<in> set cs'" using s e m1(2) by auto
  moreover have "map_of (nodes t2) ?i = Some ((written t node)\<lparr>children := Some cs'\<rparr>)"
    unfolding t2 by (simp add: map_of_update_if)
  ultimately show ?thesis
    using link_parent_children_grow[OF b, of ?i "(written t node)\<lparr>children := Some cs'\<rparr>" cs']
    by auto
qed

lemma tree_5_eq:
  "tree_5 = \<lparr>nodes = [(2, \<lparr>node_id = 2, name = ''o2'', parent_id = Some 1, node_type = OFFER,
                              price = Some 50, date = 1000, children = None\<rparr>),
                       (1, \<lparr>node_id = 1, name = ''c1'', parent_id = None, node_type = CATEGORY,
                              price = None, date = 2000, children = Some [2]\<rparr>)],
             price_by_id = [(2, [(1000, 50)])]\<rparr>"
  by (simp add: tree_5_def tree_4_eq load_items_def plain_category_1_def item_dict_def add_def
        Let_def truthy_def)

text \<open>
  Claim C5, as stated, fails: the adoption of orphans is the \<open>elif\<close> branch of \<open>add\<close>, which
  is not reached when the node carries a price. In a tree that holds the offer 2 with
  \<open>parent_id\<close> 1, the upsert of the category 1 with price 5 succeeds, and afterwards the
  \<open>children\<close> of 1 are empty although 2 is in the tree and names 1 as its parent.
\<close>

theorem priced_category_adopts_nothing:
  "unit_type priced_category_1 = CATEGORY
   \<and> map_option parent_id (map_of (nodes tree_4) 2) = Some (Some 1)
   \<and> fst (load_items tree_4 [priced_category_1] 2000) = Inr ()
   \<and> map_option parent_id (map_of (nodes (snd (load_items tree_4 [priced_category_1] 2000))) 2)
        = Some (Some 1)
   \<and> map_option children (map_of (nodes (snd (load_items tree_4 [priced_category_1] 2000))) 1)
        = Some (Some [])"
  by (simp add: tree_4_eq load_items_def priced_category_1_def item_dict_def add_def
        Let_def truthy_def add_price_def)

text \<open>
  Claim C5, amended. In a tree whose \<open>children\<close> lists have no duplicates (every tree
  that the handlers produce from the empty one is such a tree, see \<open>reachable_invariants\<close>
  below, and the upsert keeps it so), after a successful upsert of a node whose \<open>parent_id\<close> names a category of the
  tree, the \<open>children\<close> of that category contain the node's identifier exactly once; and
  after a successful upsert of a category without a price (absent or zero), every node of
  the tree whose \<open>parent_id\<close> is the category's identifier, in particular every such node
  that was in the tree before, is among the category's \<open>children\<close>.
\<close>

theorem upsert_links_and_adopts:
  assumes "children_distinct t" and "fst (add t node) = Inr ()"
  shows "(\<forall>p pn. parent_id node = Some p \<and> map_of (nodes t) p = Some pn
                  \<and> node_type pn = CATEGORY \<longrightarrow>
            (\<exists>pn' cs. map_of (nodes (snd (add t node))) p = Some pn' \<and> children pn' = Some cs
                \<and> count_list cs (node_id node) = 1))
       \<and> (node_type node = CATEGORY \<and> \<not> truthy (price node) \<longrightarrow>
            (\<forall>k m. map_of (nodes (snd (add t node))) k = Some m
                    \<and> parent_id m = Some (node_id node) \<longrightarrow>
               (\<exists>c cs. map_of (nodes (snd (add t node))) (node_id node) = Some c
                   \<and> children c = Some cs \<and> k \<in> set cs))
            \<and> (\<forall>k m. k \<noteq> node_id node \<and> map_of (nodes t) k = Some m
                    \<and> parent_id m = Some (node_id node) \<longrightarrow>
               (\<exists>c cs. map_of (nodes (snd (add t node))) (node_id node) = Some c
                   \<and> children c = Some cs \<and> k \<in> set cs)))
       \<and> children_distinct (snd (add t node))"
proof -
  let ?t' = "snd (add t node)"
  let ?i = "node_id node"
  have one: "\<exists>pn' cs. map_of (nodes ?t') p = Some pn' \<and> children pn' = Some cs
                \<and> count_list cs ?i = 1"
    if "parent_id node = Some p" "map_of (nodes t) p = Some pn" for p pn
    using upsert_links_once[OF assms that] .
  have post: "\<exists>c cs. map_of (nodes ?t') ?i = Some c \<and> children c = Some cs \<and> k \<in> set cs"
    if "node_type node = CATEGORY" "\<not> truthy (price node)"
      "map_of (nodes ?t') k = Some m" "parent_id m = Some ?i" for k m
    using upsert_category_adopts[OF assms(2) that] .
  have pre: "\<exists>c cs. map_of (nodes ?t') ?i = Some c \<and> children c = Some cs \<and> k \<in> set cs"
    if c: "node_type node = CATEGORY" "\<not> truthy (price node)"
      and k: "k \<noteq> ?i" "map_of (nodes t) k = Some m" "parent_id m = Some ?i" for k m
  proof -
    have "skeleton ?t' k = skeleton t k" using k(1) by (simp add: add_skeleton)
    then have "skeleton ?t' k = Some (m\<lparr>children := None\<rparr>)" using k(2) by (simp add: skeleton_def)
    from skeleton_node_type[OF this] obtain m' where
      "map_of (nodes ?t') k = Some m'" "parent_id m' = Some ?i" using k(3) by auto
    from post[OF c this] show ?thesis .
  qed
  have inv: "children_distinct ?t'" by (rule children_distinct_add[OF assms(1)])
  show ?thesis using one post pre inv by blast
qed

theorem upsert_links_and_adopts_witness:
  "children_distinct tree_4 \<and> fst (add tree_4 (item_dict plain_category_1 2000)) = Inr ()
   \<and> node_type (item_dict plain_category_1 2000) = CATEGORY
   \<and> \<not> truthy (price (item_dict plain_category_1 2000))
   \<and> map_option parent_id (map_of (nodes tree_4) 2) = Some (Some 1)
   \<and> (\<exists>c cs. map_of (nodes (snd (add tree_4 (item_dict plain_category_1 2000)))) 1 = Some c
          \<and> children c = Some cs \<and> 2 \<in> set cs)
   \<and> children_distinct tree_5 \<and> fst (add tree_5 (item_dict offer_2_in_1 3000)) = Inr ()
   \<and> parent_id (item_dict offer_2_in_1 3000) = Some 1
   \<and> map_option node_type (map_of (nodes tree_5) 1) = Some CATEGORY
   \<and> (\<exists>pn' cs. map_of (nodes (snd (add tree_5 (item_dict offer_2_in_1 3000)))) 1 = Some pn'
          \<and> children pn' = Some cs \<and> count_list cs 2 = 1)"
proof -
  let ?c = "item_dict plain_category_1 2000"
  let ?o = "item_dict offer_2_in_1 3000"
  let ?m = "\<lparr>node_id = 2, name = ''o2'', parent_id = Some 1, node_type = OFFER,
             price = Some 50, date = 1000, children = None\<rparr>"
  let ?pn = "\<lparr>node_id = 1, name = ''c1'', parent_id = None, node_type = CATEGORY,
              price = None, date = 2000, children = Some [2]\<rparr>"
  have a: "children_distinct tree_4" "fst (add tree_4 ?c) = Inr ()"
    by (simp_all add: children_distinct_def tree_4_eq plain_category_1_def item_dict_def add_def
          Let_def truthy_def)
  have a': "node_type ?c = CATEGORY" "\<not> truthy (price ?c)" "node_id ?c = 1"
    by (simp_all add: plain_category_1_def item_dict_def truthy_def)
  have m: "(2::nat) \<noteq> node_id ?c" "map_of (nodes tree_4) 2 = Some ?m" "parent_id ?m = Some (node_id ?c)"
    by (simp_all add: tree_4_eq plain_category_1_def item_dict_def)
  have m': "map_option parent_id (map_of (nodes tree_4) 2) = Some (Some 1)"
    by (simp add: tree_4_eq)
  from upsert_links_and_adopts[OF a] a' m
  have e1: "\<exists>c cs. map_of (nodes (snd (add tree_4 ?c))) 1 = Some c
          \<and> children c = Some cs \<and> 2 \<in> set cs"
    by (metis (no_types, lifting))
  have b: "children_distinct tree_5" "fst (add tree_5 ?o) = Inr ()"
    by (simp_all add: children_distinct_def tree_5_eq offer_2_in_1_def item_dict_def add_def
          Let_def truthy_def add_price_def)
  have b': "parent_id ?o = Some 1" "map_of (nodes tree_5) 1 = Some ?pn" "node_type ?pn = CATEGORY"
    "node_id ?o = 2"
    by (simp_all add: tree_5_eq offer_2_in_1_def item_dict_def)
  have b'': "map_option node_type (map_of (nodes tree_5) 1) = Some CATEGORY"
    by (simp add: tree_5_eq)
  from upsert_links_and_adopts[OF b] b'
  have e2: "\<exists>pn' cs. map_of (nodes (snd (add tree_5 ?o))) 1 = Some pn'
          \<and> children pn' = Some cs \<and> count_list cs 2 = 1"
    by (metis (no_types, lifting))
  show ?thesis using a a'(1,2) m' e1 b b'(1) b'' e2 by (intro conjI)
qed

section \<open>Deletion through the request handler\<close>

lemma price_by_id_delete_node: "price_by_id (snd (delete_node_by_id t i)) = price_by_id t"
  by (auto simp: delete_node_by_id_def Let_def split: option.splits)

lemma uuid_not_a_node_key: "UuidKey i \<notin> set (node_keys n)"
  by (simp add: node_keys_def)

lemma delete_item_by_id_keeps_ledger:
  "price_by_id (snd (delete_item_by_id t deleted i)) = price_by_id t"
proof -
  have "price_by_id (snd (case delete_node_by_id t i of
                     (Inl e, t2) \<Rightarrow> (Inl e, t2)
                   | (Inr None, t2) \<Rightarrow> (Inr None, t2)
                   | (Inr (Some removed), t2) \<Rightarrow> (Inr (Some 200), t2))) = price_by_id t"
    using price_by_id_delete_node[of t i]
    by (auto split: prod.splits sum.splits option.splits)
  then show ?thesis
    by (auto simp: delete_item_by_id_def uuid_not_a_node_key split: option.splits)
qed

text \<open>
  Claim C1 fails on the code. The handler guards the call of \<open>delete_price_by_id\<close> with
  \<open>id in tree.nodes[id]\<close>, a key test on the node's dict that no UUID passes, so the
  history is never discarded. After the offer 1 (price 100 at time 1000) is deleted, its
  observation is still in the ledger; the statistics request answers NotFound, but the
  sales request raises \<open>KeyError\<close>, and once the offer is upserted again the statistics
  report the observation made before the deletion.
\<close>

theorem delete_keeps_ledger_history:
  "delete_item_by_id tree_1 True 1 =
     (Inr (Some 200), \<lparr>nodes = [], price_by_id = [(1, [(1000, 100)])]\<rparr>)
   \<and> fst (api_get_statistic_by_id 1000 (snd (delete_item_by_id tree_1 True 1)) 1 None None)
       = Inl NotFound
   \<and> fst (get_sales (snd (delete_item_by_id tree_1 True 1)) 1000) = Inl KeyError
   \<and> map_sum id (map observation)
        (fst (api_get_statistic_by_id 1000
               (snd (load_items (snd (delete_item_by_id tree_1 True 1)) [offer_1] 5000))
               1 None None))
       = Inr [(1000, Some 100), (5000, Some 100)]"
proof -
  have d: "delete_item_by_id tree_1 True 1 =
     (Inr (Some 200), \<lparr>nodes = [], price_by_id = [(1, [(1000, 100)])]\<rparr>)"
    by (simp add: delete_item_by_id_def delete_node_by_id_def tree_1_eq node_keys_def)
  have s: "fst (api_get_statistic_by_id 1000 \<lparr>nodes = [], price_by_id = [(1, [(1000, 100)])]\<rparr>
                  1 None None) = Inl NotFound"
    by (simp add: api_get_statistic_by_id_def)
  have g: "fst (get_sales \<lparr>nodes = [], price_by_id = [(1, [(1000, 100)])]\<rparr> 1000) = Inl KeyError"
    by (simp add: get_sales_def sort_descending_def days_def)
  have l: "snd (load_items \<lparr>nodes = [], price_by_id = [(1, [(1000, 100)])]\<rparr> [offer_1] 5000) =
      \<lparr>nodes = [(1, \<lparr>node_id = 1, name = ''o1'', parent_id = None, node_type = OFFER,
                     price = Some 100, date = 5000, children = None\<rparr>)],
       price_by_id = [(1, [(1000, 100), (5000, 100)])]\<rparr>"
    by (simp add: load_items_def offer_1_def item_dict_def add_def Let_def truthy_def
          add_price_def)
  have r: "map_sum id (map observation)
        (fst (api_get_statistic_by_id 1000
               \<lparr>nodes = [(1, \<lparr>node_id = 1, name = ''o1'', parent_id = None, node_type = OFFER,
                     price = Some 100, date = 5000, children = None\<rparr>)],
       price_by_id = [(1, [(1000, 100), (5000, 100)])]\<rparr> 1 None None))
       = Inr [(1000, Some 100), (5000, Some 100)]"
    by (simp add: api_get_statistic_by_id_def get_statistic_by_id_def sort_ascending_def
          select_date_def observation_def)
  show ?thesis unfolding d snd_conv l by (intro conjI refl s g r)
qed

section \<open>The view and the statistics of a category without offers\<close>

lemma tree_6_eq:
  "tree_6 = \<lparr>nodes = [(5, \<lparr>node_id = 5, name = ''c5'', parent_id = None, node_type = CATEGORY,
                              price = None, date = 1000, children = Some []\<rparr>)],
             price_by_id = []\<rparr>"
  by (simp add: tree_6_def load_items_def init_def category_5_def item_dict_def add_def Let_def
        truthy_def)

lemma empty_category_view_fails:
  assumes "map_of (nodes t) i = Some n" and "node_id n = i" and "children n = Some []"
  shows "get_nodes_by_id (Suc (Suc depth)) t i = Inl ZeroDivisionError"
  using assms by (simp add: get_nodes_by_id_def)

text \<open>
  Claim C2 fails on the code for a category without offers. \<open>get_statistic_by_id\<close> tests
  \<open>count_items == 0\<close> and reports the price \<open>None\<close>; \<open>get_nodes\<close> divides without the test,
  so the view of the empty category 5 raises \<open>ZeroDivisionError\<close> at any recursion limit
  that lets the computation start, while its statistics carry the price \<open>None\<close>.
\<close>

theorem empty_category_view_divides_by_zero:
  "(\<forall>depth. get_nodes_by_id (Suc (Suc depth)) tree_6 5 = Inl ZeroDivisionError)
   \<and> (\<forall>depth. map_sum id (map observation)
                 (fst (api_get_statistic_by_id (Suc depth) tree_6 5 None None))
               = Inr [(1000, None)])"
  by (simp add: get_nodes_by_id_def tree_6_eq api_get_statistic_by_id_def
        get_statistic_by_id_def select_date_def observation_def)

lemma tree_12_eq:
  "tree_12 =
     \<lparr>nodes = [(5, \<lparr>node_id = 5, name = ''c5'', parent_id = None, node_type = CATEGORY,
                     price = None, date = 1000, children = Some [6, 7, 8]\<rparr>),
               (6, \<lparr>node_id = 6, name = ''c6'', parent_id = Some 5, node_type = CATEGORY,
                     price = None, date = 1000, children = Some [7]\<rparr>),
               (7, \<lparr>node_id = 7, name = ''o7'', parent_id = Some 6, node_type = OFFER,
                     price = Some 40, date = 2000, children = None\<rparr>),
               (8, \<lparr>node_id = 8, name = ''o8'', parent_id = Some 5, node_type = OFFER,
                     price = Some 100, date = 1000, children = None\<rparr>)],
      price_by_id = [(7, [(1000, 40), (2000, 40)]), (8, [(1000, 100)])]\<rparr>"
  by (simp add: tree_12_def load_items_def init_def category_5_def category_6_in_5_def
        offer_7_in_5_def offer_8_in_5_def offer_7_in_6_def item_dict_def add_def Let_def
        truthy_def add_price_def)

text \<open>
  A second way in which the reported price leaves the average over the descendant
  offers: an upsert that moves a node to another parent does not take it out of the old
  parent's \<open>children\<close>. The offer 7 (price 40) is moved from the category 5 into its
  sub-category 6, and the offer 8 (price 100) stays in 5. The descendant offers of 5 are
  7 and 8, with the average 70; the code walks the \<open>children\<close> lists, meets 7 twice, and
  both the view and the statistics report 60.
\<close>

lemma moved_offer_counts_twice:
  "calculate_price_for_category 10 tree_12 5 = Inr (180, 3)
   \<and> map_sum id view_price (get_nodes_by_id 10 tree_12 5) = Inr (Some 60)
   \<and> map_sum id (map result_price) (fst (api_get_statistic_by_id 10 tree_12 5 None None))
       = Inr [Some 60]"
  by (simp add: tree_12_eq get_nodes_by_id_def api_get_statistic_by_id_def
        get_statistic_by_id_def select_date_def numeral_nat)

section \<open>The checks of the statistics handler\<close>

lemma tree_7_eq:
  "tree_7 = \<lparr>nodes = [(3, \<lparr>node_id = 3, name = ''o3'', parent_id = None, node_type = OFFER,
                              price = Some 0, date = 1000, children = None\<rparr>)],
             price_by_id = []\<rparr>"
  by (simp add: tree_7_def load_items_def init_def free_offer_def item_dict_def add_def Let_def
        truthy_def)

lemma statistics_inverted_bounds:
  "inverted dateStart dateEnd \<Longrightarrow>
   api_get_statistic_by_id depth t i dateStart dateEnd = (Inl ValidationFailed, t)"
  by (simp add: api_get_statistic_by_id_def inverted_def)

lemma statistics_absent_id:
  "\<not> inverted dateStart dateEnd \<Longrightarrow> map_of (nodes t) i = None \<Longrightarrow>
   api_get_statistic_by_id depth t i dateStart dateEnd = (Inl NotFound, t)"
  by (simp add: api_get_statistic_by_id_def inverted_def)

lemma inverted_iff:
  "inverted dateStart dateEnd \<longleftrightarrow> (\<exists>s e. dateStart = Some s \<and> dateEnd = Some e \<and> e < s)"
  by (auto simp: inverted_def split: option.splits)

text \<open>
  Claim C7 fails on the code in its last part. The two checks are as the claim says
  (\<open>statistics_inverted_bounds\<close>, \<open>statistics_absent_id\<close>), but a request that passes both
  does not always return a list: the offer 3, upserted with price 0, is in the tree and
  has no history, and its statistics without bounds raise \<open>KeyError\<close>.
\<close>

theorem statistics_of_free_offer_raise:
  "fst (load_items init [free_offer] 1000) = Inr ()
   \<and> map_of (nodes tree_7) 3 \<noteq> None \<and> \<not> inverted None None
   \<and> api_get_statistic_by_id 1000 tree_7 3 None None = (Inl KeyError, tree_7)"
  by (simp add: tree_7_eq api_get_statistic_by_id_def get_statistic_by_id_def inverted_def
        load_items_def init_def free_offer_def item_dict_def add_def Let_def truthy_def)

section \<open>Invariants of the reachable trees\<close>

lemma keys_agree_lookup:
  "keys_agree t \<Longrightarrow> map_of (nodes t) k = Some n \<Longrightarrow> node_id n = k"
  by (auto simp: keys_agree_def dest!: map_of_SomeD)

lemma keys_agree_update:
  assumes "keys_agree t" and "node_id m = k"
  shows "keys_agree (t\<lparr>nodes := AList.update k m (nodes t)\<rparr>)"
  using assms set_update_subset[of k m "nodes t"]
  by (fastforce simp: keys_agree_def)

lemma keys_agree_delete:
  "keys_agree t \<Longrightarrow> keys_agree (t\<lparr>nodes := AList.delete k (nodes t)\<rparr>)"
  using set_delete_subset[of k "nodes t"] by (fastforce simp: keys_agree_def)

lemma keys_agree_ledger_update:
  "keys_agree t \<Longrightarrow> keys_agree (t\<lparr>price_by_id := AList.update k h (price_by_id t)\<rparr>)"
  by (simp add: keys_agree_def AList.distinct_update)

lemma keys_agree_ledger_delete:
  "keys_agree t \<Longrightarrow> keys_agree (t\<lparr>price_by_id := AList.delete k (price_by_id t)\<rparr>)"
  by (simp add: keys_agree_def AList.distinct_delete)

lemma keys_agree_init: "keys_agree init"
  by (simp add: keys_agree_def init_def)

lemma keys_agree_adopt: "keys_agree t \<Longrightarrow> keys_agree (snd (adopt i es t))"
proof (induction es arbitrary: t)
  case Nil
  then show ?case by simp
next
  case (Cons e es)
  obtain k ni where e: "e = (k, ni)" by (cases e)
  have step: "keys_agree (t\<lparr>nodes := AList.update i (n\<lparr>children := c\<rparr>) (nodes t)\<rparr>)"
    if "map_of (nodes t) i = Some n" for n c
    using keys_agree_lookup[OF Cons.prems that] by (intro keys_agree_update[OF Cons.prems]) simp
  show ?case
    using Cons.prems e Cons.IH[OF Cons.prems] Cons.IH[OF step]
    by (auto split: option.splits)
qed

lemma keys_agree_add_price: "keys_agree t \<Longrightarrow> keys_agree (add_price t i d p)"
  by (auto simp: add_price_def keys_agree_ledger_update split: option.splits)

lemma keys_agree_add: "keys_agree t \<Longrightarrow> keys_agree (snd (add t node))"
proof -
  assume a: "keys_agree t"
  have w: "keys_agree (write_node t node)"
    unfolding write_node_def by (rule keys_agree_update[OF a]) simp
  have r: "keys_agree (snd (record_price (write_node t node) node))"
    using w by (auto simp: record_price_def keys_agree_adopt keys_agree_add_price
                     split: option.splits)
  have l: "keys_agree (snd (link_parent t2 i parent))" if "keys_agree t2" for t2 i parent
    using that
    by (auto simp: link_parent_def split: option.splits
             intro!: keys_agree_update dest: keys_agree_lookup)
  obtain r2 t2 where b: "record_price (write_node t node) node = (r2, t2)"
    by (cases "record_price (write_node t node) node")
  show ?thesis
    using r b l[of t2 "node_id node" "parent_id node"]
    by (auto simp: add_unfold split: sum.splits)
qed

lemma keys_agree_delete_node:
  assumes "keys_agree t"
  shows "keys_agree (snd (delete_node_by_id t i))"
proof -
  have a: "keys_agree (t\<lparr>nodes := AList.delete i (nodes t)\<rparr>)"
    by (rule keys_agree_delete[OF assms])
  have c: "keys_agree (t\<lparr>nodes := AList.update p (pn\<lparr>children := c\<rparr>) (nodes t)\<rparr>)"
    if "map_of (nodes t) p = Some pn" for p pn c
    using keys_agree_lookup[OF assms that] by (intro keys_agree_update[OF assms]) simp
  have b: "keys_agree (t\<lparr>nodes := AList.delete i (AList.update p (pn\<lparr>children := c\<rparr>) (nodes t))\<rparr>)"
    if "map_of (nodes t) p = Some pn" for p pn c
    using keys_agree_delete[OF c[OF that], of i] by simp
  show ?thesis
    using assms a b c
    by (auto simp: delete_node_by_id_def Let_def split: option.splits)
qed

lemma load_items_preserves:
  assumes "\<And>t node. P t \<Longrightarrow> P (snd (add t node))"
  shows "P t \<Longrightarrow> P (snd (load_items t items d))"
  unfolding load_items_def
proof (induction items arbitrary: t)
  case Nil
  then show ?case by simp
next
  case (Cons item items)
  from Cons.IH[OF assms[OF Cons.prems, of "item_dict item d"]] Cons.prems
    assms[OF Cons.prems, of "item_dict item d"]
  show ?case by (auto split: prod.splits sum.splits)
qed

lemma delete_item_preserves:
  assumes "\<And>t i. P t \<Longrightarrow> P (snd (delete_node_by_id t i))"
  shows "P t \<Longrightarrow> P (snd (delete_item_by_id t deleted i))"
proof -
  assume p: "P t"
  have "P (snd (case delete_node_by_id t i of
                     (Inl e, t2) \<Rightarrow> (Inl e, t2)
                   | (Inr None, t2) \<Rightarrow> (Inr None, t2)
                   | (Inr (Some removed), t2) \<Rightarrow> (Inr (Some 200), t2)))"
    using assms[OF p, of i] by (auto split: prod.splits sum.splits option.splits)
  then show ?thesis
    using p by (auto simp: delete_item_by_id_def uuid_not_a_node_key split: option.splits)
qed

lemma nodes_sales_loop: "nodes (snd (sales_loop d ids t acc)) = nodes t"
  by (induction ids arbitrary: t acc) (auto simp: Let_def split: option.splits)

lemma keys_agree_sales_loop: "keys_agree t \<Longrightarrow> keys_agree (snd (sales_loop d ids t acc))"
proof (induction ids arbitrary: t acc)
  case Nil
  then show ?case by simp
next
  case (Cons i ids)
  show ?case
    using Cons.prems Cons.IH[OF keys_agree_ledger_update[OF Cons.prems]]
    by (auto simp: Let_def keys_agree_ledger_update split: option.splits)
qed

lemma nodes_statistic: "nodes (snd (api_get_statistic_by_id depth t i s e)) = nodes t"
  by (auto simp: api_get_statistic_by_id_def get_statistic_by_id_def Let_def
           split: option.splits sum.splits)

lemma keys_agree_statistic:
  "keys_agree t \<Longrightarrow> keys_agree (snd (api_get_statistic_by_id depth t i s e))"
  by (auto simp: api_get_statistic_by_id_def get_statistic_by_id_def Let_def
           keys_agree_ledger_update split: option.splits sum.splits)

lemma reachable_invariants: "reachable t \<Longrightarrow> children_distinct t \<and> keys_agree t"
proof (induction rule: reachable.induct)
  case at_start
  show ?case by (simp add: children_distinct_init keys_agree_init)
next
  case (after_imports t items update_date)
  then show ?case
    using load_items_preserves[of children_distinct t items update_date]
      load_items_preserves[of keys_agree t items update_date]
    by (simp add: children_distinct_add keys_agree_add)
next
  case (after_delete t deleted i)
  then show ?case
    using delete_item_preserves[of children_distinct t deleted i]
      delete_item_preserves[of keys_agree t deleted i]
    by (simp add: children_distinct_delete_node keys_agree_delete_node)
next
  case (after_sales t d)
  then show ?case
    by (simp add: get_sales_def keys_agree_sales_loop
          children_distinct_nodes_eq[OF nodes_sales_loop])
next
  case (after_statistic t depth i dateStart dateEnd)
  then show ?case
    by (simp add: keys_agree_statistic children_distinct_nodes_eq[OF nodes_statistic])
qed

end
